theory Spec2Isabelle
  imports Main "HOL-Library.Multiset"
begin

section \<open>Shared data model\<close>

text \<open>
  JavaScript exceptions are values of the type \<open>error\<close>. \<open>VError cause message\<close> is the
  wrapper of the verror package: it keeps the error it wraps. Every function that can throw
  returns \<open>error + 'a\<close>, with \<open>Inl\<close> for the thrown error.
\<close>

datatype error =
    TypeError string
  | SyntaxError string
  | Error string
  | VError error string

text \<open>
  Modelled from the spec: the enum \<open>MessageType\<close> of the module \<open>transaction\<close>, which is
  imported by both clients and is not among the sources. The spec lists its values as
  Call, Value, Create, Selfdestruct, DelegateCall, StaticCall.
\<close>

datatype MessageType = Call | Value | Create | Selfdestruct | DelegateCall | StaticCall

text \<open>
  Strings are lists of characters, one character for each UTF-16 code unit below 256 of the
  JavaScript string; addresses, hexadecimal data and the type tags stay in that range.
  An optional property (\<open>from?: string\<close>) is an \<open>option\<close>: \<open>None\<close> is \<open>undefined\<close>.
\<close>

definition truthy :: "string option \<Rightarrow> bool" where
  "truthy s = (case s of None \<Rightarrow> False | Some v \<Rightarrow> v \<noteq> [])"

text \<open>
  The value of a character as a digit, for radices up to 36, as \<open>parseInt\<close> and the numeral
  parsers read it: \<open>0-9\<close>, then \<open>a-z\<close> or \<open>A-Z\<close> for ten to thirty-five.
\<close>

definition digitValue :: "char \<Rightarrow> nat option" where
  "digitValue c =
     (let n = of_char c :: nat in
      if 48 \<le> n \<and> n \<le> 57 then Some (n - 48)
      else if 97 \<le> n \<and> n \<le> 122 then Some (n - 87)
      else if 65 \<le> n \<and> n \<le> 90 then Some (n - 55)
      else None)"

definition isDigit :: "nat \<Rightarrow> char \<Rightarrow> bool" where
  "isDigit radix c = (case digitValue c of None \<Rightarrow> False | Some d \<Rightarrow> d < radix)"

definition digitsValue :: "nat \<Rightarrow> string \<Rightarrow> nat" where
  "digitsValue radix ds = foldl (\<lambda>acc c. acc * radix + the (digitValue c)) 0 ds"

section \<open>The Geth client: flattening a call trace\<close>

text \<open>
  \<open>CallResponse\<close> of GethClient.ts: the call tree that \<open>debug_traceTransaction\<close> returns with
  the call tracer. The scalar properties are the record \<open>CallFields\<close>; the tree itself is the
  datatype \<open>CallResponse\<close>, whose second component is the optional array \<open>calls\<close>. The property
  \<open>type\<close> is kept as the string that arrives, so that a tag outside the declared union is a
  value of the model as it is of the JSON.
\<close>

record CallFields =
  cr_type :: string
  cr_from :: "string option"
  cr_to :: "string option"
  cr_input :: "string option"
  cr_output :: "string option"
  cr_value :: "string option"
  cr_gas :: "string option"
  cr_gasUsed :: "string option"
  cr_time :: "string option"
  cr_error :: "string option"

datatype CallResponse =
  CallResponse (cr_fields: CallFields) (cr_calls: "CallResponse list option")

text \<open>
  The object that \<open>addTraces\<close> builds for every call (the literal \<open>newTrace\<close>). Objects are
  shared by reference: the array \<open>traces\<close>, the parent's \<open>childTraces\<close> and the children's
  \<open>parentTrace\<close> all point to the same object, and \<open>childTraces.push\<close> mutates it. The model
  keeps the array \<open>traces\<close> as the store and writes a reference as the position of the object
  in that array. A \<open>BigNumber\<close> is the integer it holds.
\<close>

record Trace =
  t_id :: nat
  t_type :: MessageType
  t_from :: "string option"
  t_delegatedFrom :: "string option"
  t_to :: "string option"
  t_value :: "int option"
  t_inputs :: "string option"
  t_inputParams :: "string list"
  t_funcSelector :: "string option"
  t_outputs :: "string option"
  t_outputParams :: "string list"
  t_gasLimit :: "int option"
  t_gasUsed :: "int option"
  t_parentTrace :: "nat option"
  t_childTraces :: "nat list"
  t_depth :: nat
  t_error :: "string option"

text \<open>
  The literal has no property \<open>status\<close>, and nothing in the client adds one later: reading
  \<open>status\<close> from an object that \<open>addTraces\<close> built yields \<open>undefined\<close>.
\<close>

definition t_status :: "Trace \<Rightarrow> bool option" where
  "t_status m = None"

text \<open>
  \<open>BigNumber.from\<close> of the ethers library, on a string: an optional minus sign followed by
  either \<open>0x\<close> and at least one hexadecimal digit or by at least one decimal digit; any other
  string is the library's invalid-argument error. (The library's pattern also lets the prefix
  be written \<open>0X\<close>; the model takes that spelling as invalid, so it accepts no string the
  library rejects.)
\<close>

definition BigNumber_from :: "string \<Rightarrow> error + int" where
  "BigNumber_from s =
     (let negative = (s \<noteq> [] \<and> hd s = CHR ''-'');
          body = (if negative then tl s else s);
          sign = (if negative then - 1 else 1 :: int)
      in if take 2 body = ''0x'' \<and> drop 2 body \<noteq> [] \<and> list_all (isDigit 16) (drop 2 body)
           then Inr (sign * int (digitsValue 16 (drop 2 body)))
         else if body \<noteq> [] \<and> list_all (isDigit 10) body
           then Inr (sign * int (digitsValue 10 body))
         else Inl (Error ''invalid BigNumber string''))"

definition convertBigNumber :: "string option \<Rightarrow> error + int option" where
  "convertBigNumber v =
     (if \<not> truthy v then Inr None
      else case BigNumber_from (the v) of Inl e \<Rightarrow> Inl e | Inr n \<Rightarrow> Inr (Some n))"

text \<open>\<open>convertType\<close> of GethClient.ts.\<close>

definition GethClient_convertType :: "CallFields \<Rightarrow> MessageType" where
  "GethClient_convertType trace =
     (if cr_type trace = ''DELEGATECALL'' then DelegateCall
      else if cr_type trace = ''STATICCALL'' then StaticCall
      else if cr_type trace = ''CREATE'' \<or> cr_type trace = ''CREATE2'' then Create
      else if cr_type trace = ''SELFDESTRUCT'' then Selfdestruct
      else Call)"

text \<open>
  The object literal of \<open>addTraces\<close>. Its properties are evaluated in the order written, so
  the first conversion that throws is the one of \<open>value\<close>, then \<open>gas\<close>, then \<open>gasUsed\<close>.
\<close>

definition newTrace ::
  "CallFields \<Rightarrow> nat \<Rightarrow> nat \<Rightarrow> MessageType \<Rightarrow> string option \<Rightarrow> nat option \<Rightarrow> error + Trace" where
  "newTrace callResponse nextId depth type delegatedFrom parentTrace =
     (case (if truthy (cr_value callResponse) then convertBigNumber (cr_value callResponse)
            else Inr (Some 0)) of
        Inl e \<Rightarrow> Inl e
      | Inr v \<Rightarrow>
     (case convertBigNumber (cr_gas callResponse) of
        Inl e \<Rightarrow> Inl e
      | Inr gasLimit \<Rightarrow>
     (case convertBigNumber (cr_gasUsed callResponse) of
        Inl e \<Rightarrow> Inl e
      | Inr gasUsed \<Rightarrow>
        Inr \<lparr> t_id = nextId,
              t_type = type,
              t_from = cr_from callResponse,
              t_delegatedFrom = delegatedFrom,
              t_to = cr_to callResponse,
              t_value = v,
              t_inputs = cr_input callResponse,
              t_inputParams = [],
              t_funcSelector =
                (case cr_input callResponse of
                   None \<Rightarrow> None
                 | Some input \<Rightarrow> if length input \<ge> 10 then Some (take 10 input) else None),
              t_outputs = cr_output callResponse,
              t_outputParams = [],
              t_gasLimit = gasLimit,
              t_gasUsed = gasUsed,
              t_parentTrace = parentTrace,
              t_childTraces = [],
              t_depth = depth,
              t_error = cr_error callResponse \<rparr>)))"

text \<open>
  \<open>parentTrace.childTraces.push(newTrace)\<close> followed by \<open>traces.push(newTrace)\<close>: the new
  object gets the next position of the array, and the parent's list of children gets that
  position.
\<close>

definition linkAndPush :: "Trace list \<Rightarrow> nat option \<Rightarrow> Trace \<Rightarrow> Trace list" where
  "linkAndPush traces parentTrace t =
     (case parentTrace of
        None \<Rightarrow> traces
      | Some p \<Rightarrow>
          traces[p := (traces ! p)\<lparr>t_childTraces := t_childTraces (traces ! p) @ [length traces]\<rparr>])
     @ [t]"

text \<open>
  \<open>addTraces\<close>, with the loop \<open>callResponse.calls.forEach\<close> as the second function. The array
  \<open>traces\<close> and the counter \<open>id\<close> are passed in and returned; \<open>parentTrace\<close> is the position of
  the parent's object in \<open>traces\<close>, which is where the caller has just pushed it. An exception
  leaves both loops at once.
\<close>

fun addTraces ::
  "CallResponse \<Rightarrow> Trace list \<Rightarrow> nat \<Rightarrow> nat \<Rightarrow> nat option \<Rightarrow> error + Trace list \<times> nat"
and addTraces_forEach ::
  "CallResponse list \<Rightarrow> Trace list \<Rightarrow> nat \<Rightarrow> nat \<Rightarrow> nat option \<Rightarrow> error + Trace list \<times> nat"
where
  "addTraces (CallResponse callResponse calls) traces nextId depth parentTrace =
     (case newTrace callResponse nextId depth (GethClient_convertType callResponse)
             (case parentTrace of
                None \<Rightarrow> cr_from callResponse
              | Some p \<Rightarrow>
                  if t_type (traces ! p) = DelegateCall then t_to (traces ! p)
                  else cr_from callResponse)
             parentTrace of
        Inl e \<Rightarrow> Inl e
      | Inr t \<Rightarrow>
          (case calls of
             None \<Rightarrow> Inr (linkAndPush traces parentTrace t, nextId + 1)
           | Some childCalls \<Rightarrow>
               addTraces_forEach childCalls (linkAndPush traces parentTrace t)
                 (nextId + 1) (depth + 1) (Some (length traces))))"
| "addTraces_forEach [] traces nextId depth newTraceRef = Inr (traces, nextId)"
| "addTraces_forEach (childCall # rest) traces nextId depth newTraceRef =
     (case addTraces childCall traces nextId depth newTraceRef of
        Inl e \<Rightarrow> Inl e
      | Inr (traces', nextId') \<Rightarrow> addTraces_forEach rest traces' nextId' depth newTraceRef)"

subsection \<open>Well-formed call trees, pre-order and links\<close>

text \<open>
  A call tree is well formed when the numeric strings of every call are ones that
  \<open>BigNumber.from\<close> accepts; on any other tree \<open>addTraces\<close> throws.
\<close>

definition numbersParse :: "CallFields \<Rightarrow> bool" where
  "numbersParse c =
     (\<not> isl (convertBigNumber (cr_value c)) \<and> \<not> isl (convertBigNumber (cr_gas c))
      \<and> \<not> isl (convertBigNumber (cr_gasUsed c)))"

fun wellformed :: "CallResponse \<Rightarrow> bool"
and wellformedList :: "CallResponse list \<Rightarrow> bool"
where
  "wellformed (CallResponse c calls) =
     (numbersParse c \<and> (case calls of None \<Rightarrow> True | Some cs \<Rightarrow> wellformedList cs))"
| "wellformedList [] = True"
| "wellformedList (c # cs) = (wellformed c \<and> wellformedList cs)"

text \<open>The calls of a tree in pre-order: a call before its children, the children in order.\<close>

fun preorder :: "CallResponse \<Rightarrow> CallFields list"
and preorderList :: "CallResponse list \<Rightarrow> CallFields list"
where
  "preorder (CallResponse c calls) =
     c # (case calls of None \<Rightarrow> [] | Some cs \<Rightarrow> preorderList cs)"
| "preorderList [] = []"
| "preorderList (c # cs) = preorder c @ preorderList cs"

text \<open>
  The parent of every call of a tree, in pre-order: \<open>None\<close> for the call at the root, and
  for every call below it the position, in pre-order, of the call whose array \<open>calls\<close>
  holds it. \<open>pos\<close> is the position of the call at hand, \<open>parent\<close> that of the call above it.
\<close>

fun parentPositions :: "nat option \<Rightarrow> nat \<Rightarrow> CallResponse \<Rightarrow> nat option list"
and parentPositionsList :: "nat option \<Rightarrow> nat \<Rightarrow> CallResponse list \<Rightarrow> nat option list"
where
  "parentPositions parent pos (CallResponse c calls) =
     parent # (case calls of None \<Rightarrow> [] | Some cs \<Rightarrow> parentPositionsList (Some pos) (pos + 1) cs)"
| "parentPositionsList parent pos [] = []"
| "parentPositionsList parent pos (c # cs) =
     parentPositions parent pos c @ parentPositionsList parent (pos + length (preorder c)) cs"

text \<open>
  Two notions for the proofs. \<open>strip\<close> forgets the one property that is mutated after an
  object is built. \<open>copied c m\<close> says that \<open>m\<close> carries what the literal takes from the call
  \<open>c\<close> alone.
\<close>

definition strip :: "Trace \<Rightarrow> Trace" where
  "strip m = m\<lparr>t_childTraces := []\<rparr>"

definition copied :: "CallFields \<Rightarrow> Trace \<Rightarrow> bool" where
  "copied c m =
     (t_type m = GethClient_convertType c \<and> t_from m = cr_from c \<and> t_to m = cr_to c
      \<and> t_inputs m = cr_input c \<and> t_outputs m = cr_output c \<and> t_error m = cr_error c
      \<and> t_value m = (if truthy (cr_value c) then projr (convertBigNumber (cr_value c)) else Some 0)
      \<and> t_gasLimit m = projr (convertBigNumber (cr_gas c))
      \<and> t_gasUsed m = projr (convertBigNumber (cr_gasUsed c)))"

text \<open>
  The links between the objects of an array of traces: a trace without a parent is
  attributed to its own sender; a trace with a parent comes after it, is listed among its
  children, is one level deeper, and is attributed by the parent's type.
\<close>

definition linked :: "Trace list \<Rightarrow> bool" where
  "linked traces =
     (\<forall>i<length traces.
        case t_parentTrace (traces ! i) of
          None \<Rightarrow> t_delegatedFrom (traces ! i) = t_from (traces ! i)
        | Some p \<Rightarrow>
            p < i \<and> i \<in> set (t_childTraces (traces ! p))
            \<and> t_depth (traces ! i) = t_depth (traces ! p) + 1
            \<and> t_delegatedFrom (traces ! i) =
                (if t_type (traces ! p) = DelegateCall then t_to (traces ! p)
                 else t_from (traces ! i)))"

text \<open>
  Two traces to evaluate the flattener on. The first is the chain
  Root -CALL-> A -DELEGATECALL-> B -DELEGATECALL-> C. The second has four calls, the last of
  which failed; its second call has neither value nor gas.
\<close>

definition chainExample :: CallResponse where
  "chainExample =
     CallResponse \<lparr> cr_type = ''CALL'', cr_from = Some ''0xRoot'', cr_to = Some ''0xA'',
         cr_input = Some ''0xa9059cbb00'', cr_output = Some ''0x'', cr_value = Some ''0x0'',
         cr_gas = Some ''0x5208'', cr_gasUsed = Some ''0x1388'', cr_time = None,
         cr_error = None \<rparr>
       (Some [CallResponse \<lparr> cr_type = ''DELEGATECALL'', cr_from = Some ''0xA'',
           cr_to = Some ''0xB'', cr_input = Some ''0xa9059cbb00'', cr_output = Some ''0x'',
           cr_value = None, cr_gas = Some ''0x4e20'', cr_gasUsed = Some ''0x3e8'',
           cr_time = None, cr_error = None \<rparr>
         (Some [CallResponse \<lparr> cr_type = ''DELEGATECALL'', cr_from = Some ''0xB'',
             cr_to = Some ''0xC'', cr_input = Some ''0xa9059cbb00'', cr_output = Some ''0x'',
             cr_value = None, cr_gas = Some ''0x2710'', cr_gasUsed = Some ''0x64'',
             cr_time = None, cr_error = None \<rparr> None])])"

definition failingLeafExample :: CallResponse where
  "failingLeafExample =
     CallResponse \<lparr> cr_type = ''CALL'', cr_from = Some ''0xRoot'', cr_to = Some ''0xA'',
         cr_input = Some ''0x'', cr_output = None, cr_value = Some ''0xde0b6b3a7640000'',
         cr_gas = Some ''0x5208'', cr_gasUsed = Some ''0x1388'', cr_time = None,
         cr_error = None \<rparr>
       (Some [CallResponse \<lparr> cr_type = ''STATICCALL'', cr_from = Some ''0xA'',
           cr_to = Some ''0xB'', cr_input = Some ''0x70a08231'', cr_output = None,
           cr_value = None, cr_gas = None, cr_gasUsed = None, cr_time = None,
           cr_error = None \<rparr>
           (Some [CallResponse \<lparr> cr_type = ''CALL'', cr_from = Some ''0xB'',
             cr_to = Some ''0xD'', cr_input = None, cr_output = None,
             cr_value = Some ''12'', cr_gas = Some ''0x10'', cr_gasUsed = None, cr_time = None,
             cr_error = None \<rparr> (Some [])]),
          CallResponse \<lparr> cr_type = ''CALL'', cr_from = Some ''0xA'',
           cr_to = Some ''0xC'', cr_input = Some ''0xa9059cbb00'', cr_output = None,
           cr_value = Some ''0x1'', cr_gas = Some ''0x2710'', cr_gasUsed = Some ''0x2710'',
           cr_time = None, cr_error = Some ''execution reverted'' \<rparr> None])"

section \<open>The Geth client: decoding a revert reason\<close>

text \<open>
  The white space that \<open>parseInt\<close> skips, among the code units below 256: tab, line feed,
  vertical tab, form feed, carriage return, space and the no-break space.
\<close>

definition isWhiteSpace :: "char \<Rightarrow> bool" where
  "isWhiteSpace c = (of_char c \<in> {9, 10, 11, 12, 13, 32, 160 :: nat})"

text \<open>
  \<open>parseInt(string, radix)\<close> for an explicit radix: white space is skipped, then a sign,
  then (for radix 16 only) a prefix \<open>0x\<close> or \<open>0X\<close>; the longest run of digits of the radix is
  the number, and no digit at all is \<open>NaN\<close>, here \<open>None\<close>. The result is a JavaScript number,
  exact below \<open>2 ^ 53\<close> and rounded above; the model keeps the exact integer, which
  \<open>parseReasonCode\<close> cannot tell apart: it only adds 136 to twice the number and passes the
  sum to \<open>slice\<close>, which cuts it down to the length of the string.
\<close>

definition parseInt :: "string \<Rightarrow> nat \<Rightarrow> int option" where
  "parseInt string radix =
     (let s = dropWhile isWhiteSpace string;
          negative = (s \<noteq> [] \<and> hd s = CHR ''-'');
          unsigned = (if s \<noteq> [] \<and> (hd s = CHR ''-'' \<or> hd s = CHR ''+'') then tl s else s);
          body = (if radix = 16 \<and> (take 2 unsigned = ''0x'' \<or> take 2 unsigned = ''0X'')
                  then drop 2 unsigned else unsigned);
          digits = takeWhile (isDigit radix) body
      in if radix < 2 \<or> 36 < radix \<or> digits = [] then None
         else Some ((if negative then - 1 else 1) * int (digitsValue radix digits)))"

text \<open>
  \<open>String.prototype.slice(start, end)\<close>: a negative index counts from the end of the
  string, both indices are cut to the range of the string, and the result is empty when the
  end is not after the start. An end that is \<open>NaN\<close> counts as 0.
\<close>

definition slice :: "string \<Rightarrow> int \<Rightarrow> int \<Rightarrow> string" where
  "slice s start finish =
     (let len = int (length s);
          lo = (if start < 0 then max (len + start) 0 else min start len);
          hi = (if finish < 0 then max (len + finish) 0 else min finish len)
      in take (nat (hi - lo)) (drop (nat lo) s))"

text \<open>
  \<open>toUtf8String\<close> of the ethers library, as \<open>parseReasonCode\<close> calls it: with one argument,
  so that every malformed input throws. \<open>arrayify\<close> turns the hexadecimal string into bytes:
  it wants the prefix \<open>0x\<close>, hexadecimal digits only, and an even number of them.
\<close>

definition isHexString :: "string \<Rightarrow> bool" where
  "isHexString v = (take 2 v = ''0x'' \<and> list_all (isDigit 16) (drop 2 v))"

fun hexPairs :: "string \<Rightarrow> nat list" where
  "hexPairs (a # b # rest) = (the (digitValue a) * 16 + the (digitValue b)) # hexPairs rest"
| "hexPairs rest = []"

definition arrayify :: "string \<Rightarrow> error + nat list" where
  "arrayify v =
     (if isHexString v then
        (if odd (length (drop 2 v)) then Inl (Error ''hex data is odd-length'')
         else Inr (hexPairs (drop 2 v)))
      else Inl (Error ''invalid arrayify value''))"

text \<open>
  The library's strict UTF-8 decoder, on bytes (numbers below 256), giving the code points.
  The library tests the leading byte with masks; on a byte, \<open>c >> 7 === 0\<close> is
  \<open>c div 128 = 0\<close>, \<open>(c & 0xe0) === 0xc0\<close> is \<open>c div 32 = 6\<close>, \<open>(c & 0xf0) === 0xe0\<close> is
  \<open>c div 16 = 14\<close>, \<open>(c & 0xf8) === 0xf0\<close> is \<open>c div 8 = 30\<close> and \<open>(c & 0xc0) === 0x80\<close> is
  \<open>c div 64 = 2\<close>; the payload \<open>c & ((1 << (8 - extraLength - 1)) - 1)\<close> of the leading byte
  is \<open>c mod 2 ^ (7 - extraLength)\<close>, and \<open>(res << 6) | (nextChar & 0x3f)\<close> is
  \<open>res * 64 + nextChar mod 64\<close>. Every error is thrown.
\<close>

function getUtf8CodePoints :: "nat list \<Rightarrow> error + nat list" where
  "getUtf8CodePoints [] = Inr []"
| "getUtf8CodePoints (c # bytes) =
     (if c div 128 = 0 then
        (case getUtf8CodePoints bytes of Inl e \<Rightarrow> Inl e | Inr result \<Rightarrow> Inr (c # result))
      else if c div 32 \<noteq> 6 \<and> c div 16 \<noteq> 14 \<and> c div 8 \<noteq> 30 then
        Inl (Error (if c div 64 = 2 then ''unexpected continuation byte''
                    else ''bad codepoint prefix''))
      else if length bytes < (if c div 32 = 6 then 1 else if c div 16 = 14 then 2 else 3) then
        Inl (Error ''unexpected end of data'')
      else if \<not> list_all (\<lambda>nextChar. nextChar div 64 = 2)
                (take (if c div 32 = 6 then 1 else if c div 16 = 14 then 2 else 3) bytes) then
        Inl (Error ''missing continuation byte'')
      else
        (let extraLength = (if c div 32 = 6 then 1 else if c div 16 = 14 then 2 else 3 :: nat);
             overlongMask = (if c div 32 = 6 then 0x7f else if c div 16 = 14 then 0x7ff
                             else 0xffff :: nat);
             res = foldl (\<lambda>res nextChar. res * 64 + nextChar mod 64)
                     (c mod 2 ^ (7 - extraLength)) (take extraLength bytes)
         in if res > 0x10ffff then Inl (Error ''out of UTF-8 range'')
            else if 0xd800 \<le> res \<and> res \<le> 0xdfff then Inl (Error ''UTF-16 surrogate'')
            else if res \<le> overlongMask then Inl (Error ''overlong representation'')
            else (case getUtf8CodePoints
                         (drop (if c div 32 = 6 then 1 else if c div 16 = 14 then 2 else 3) bytes) of
                    Inl e \<Rightarrow> Inl e
                  | Inr result \<Rightarrow> Inr (res # result))))"
  by pat_completeness auto
termination
proof (relation "measure length", goal_cases)
  case 1
  show ?case by simp
next
  case (2 c bytes)
  show ?case by simp
next
  case (3 c bytes)
  show ?case by simp
qed

text \<open>A decoded string is the list of its code points.\<close>

definition toUtf8String :: "string \<Rightarrow> error + nat list" where
  "toUtf8String bytes =
     (case arrayify bytes of Inl e \<Rightarrow> Inl e | Inr bs \<Rightarrow> getUtf8CodePoints bs)"

text \<open>
  \<open>parseReasonCode\<close>. The caller has cut the prefix \<open>0x\<close> off: \<open>messageData\<close> starts with the
  eight hexadecimal digits of the selector.
\<close>

definition parseReasonCode :: "string \<Rightarrow> error + nat list" where
  "parseReasonCode messageData =
     (let strLen = parseInt (slice messageData (8 + 64) (8 + 128)) 16;
          reasonCodeHex =
            slice messageData (8 + 128)
              (case strLen of None \<Rightarrow> 0 | Some n \<Rightarrow> 8 + 128 + n * 2)
      in toUtf8String (''0x'' @ reasonCodeHex))"

subsection \<open>The encoding that the decoder is to invert\<close>

text \<open>
  The payload of a revert with \<open>Error(string)\<close>, written from the ABI's layout: the selector
  \<open>08c379a0\<close>, a word with the offset 32 of the string, a word with the number of its bytes,
  and the bytes of its UTF-8 encoding, filled with zeros up to a multiple of 32 bytes; all
  in hexadecimal, two digits for a byte and 64 for a word. \<open>scalarValue\<close> are the code
  points UTF-8 can encode: up to \<open>0x10ffff\<close>, without the surrogates.
\<close>

definition scalarValue :: "nat \<Rightarrow> bool" where
  "scalarValue c = (c < 0x110000 \<and> \<not> (0xd800 \<le> c \<and> c \<le> 0xdfff))"

definition utf8Char :: "nat \<Rightarrow> nat list" where
  "utf8Char c =
     (if c < 0x80 then [c]
      else if c < 0x800 then [0xc0 + c div 64, 0x80 + c mod 64]
      else if c < 0x10000 then [0xe0 + c div 4096, 0x80 + c div 64 mod 64, 0x80 + c mod 64]
      else [0xf0 + c div 262144, 0x80 + c div 4096 mod 64, 0x80 + c div 64 mod 64,
            0x80 + c mod 64])"

definition utf8Bytes :: "nat list \<Rightarrow> nat list" where
  "utf8Bytes cps = concat (map utf8Char cps)"

definition hexDigitChar :: "nat \<Rightarrow> char" where
  "hexDigitChar d = ''0123456789abcdef'' ! d"

definition hexBytes :: "nat list \<Rightarrow> string" where
  "hexBytes bs = concat (map (\<lambda>b. [hexDigitChar (b div 16), hexDigitChar (b mod 16)]) bs)"

fun hexDigits :: "nat \<Rightarrow> nat \<Rightarrow> string" where
  "hexDigits 0 v = []"
| "hexDigits (Suc n) v = hexDigits n (v div 16) @ [hexDigitChar (v mod 16)]"

definition abiWord :: "nat \<Rightarrow> string" where
  "abiWord v = hexDigits 64 v"

definition encodeErrorString :: "nat list \<Rightarrow> string" where
  "encodeErrorString cps =
     (let bytes = utf8Bytes cps; n = length bytes
      in ''08c379a0'' @ abiWord 32 @ abiWord n @ hexBytes bytes
         @ replicate (2 * ((32 - n mod 32) mod 32)) CHR ''0'')"

definition codePoints :: "string \<Rightarrow> nat list" where
  "codePoints s = map of_char s"

section \<open>The Alethio client\<close>

text \<open>
  Modelled from the spec: the regular expression \<open>transactionHash\<close> of the module \<open>regEx\<close>,
  which is not among the sources. The spec and the error message of the callers give the
  format: the prefix \<open>0x\<close> followed by 32 bytes in hexadecimal, that is 64 hexadecimal digits.
  \<open>transactionHash s\<close> says that \<open>s.match(transactionHash)\<close> is not null.
\<close>

definition transactionHash :: "string \<Rightarrow> bool" where
  "transactionHash s = (take 2 s = ''0x'' \<and> length s = 66 \<and> list_all (isDigit 16) (drop 2 s))"

definition quoted :: "string \<Rightarrow> string" where
  "quoted s = [CHR 0x22] @ s @ [CHR 0x22]"

definition hashTypeError :: "string \<Rightarrow> error" where
  "hashTypeError txHash =
     TypeError (''Transaction hash '' @ quoted txHash
                @ '' must be 32 bytes in hexadecimal format with a 0x prefix'')"

text \<open>
  A scalar of the indexer's JSON that the client hands to \<open>BigInt\<close>: absent, a number (an
  integer) or a string. \<open>BigInt\<close> throws a TypeError on \<open>undefined\<close> and a SyntaxError on a
  string that is not an integer literal; a string is trimmed, the empty string is 0, the
  prefixes \<open>0x\<close>, \<open>0o\<close> and \<open>0b\<close> take a radix and no sign, and a decimal literal may carry a
  sign.
\<close>

datatype jsval = JUndefined | JNumber int | JString string

definition trim :: "string \<Rightarrow> string" where
  "trim s = rev (dropWhile isWhiteSpace (rev (dropWhile isWhiteSpace s)))"

definition parseDigits :: "nat \<Rightarrow> string \<Rightarrow> nat option" where
  "parseDigits radix ds =
     (if ds \<noteq> [] \<and> list_all (isDigit radix) ds then Some (digitsValue radix ds) else None)"

definition StringToBigInt :: "string \<Rightarrow> int option" where
  "StringToBigInt str =
     (let s = trim str in
      if s = [] then Some 0
      else if take 2 s = ''0x'' \<or> take 2 s = ''0X'' then map_option int (parseDigits 16 (drop 2 s))
      else if take 2 s = ''0o'' \<or> take 2 s = ''0O'' then map_option int (parseDigits 8 (drop 2 s))
      else if take 2 s = ''0b'' \<or> take 2 s = ''0B'' then map_option int (parseDigits 2 (drop 2 s))
      else if hd s = CHR ''-'' then map_option (\<lambda>n. - int n) (parseDigits 10 (tl s))
      else if hd s = CHR ''+'' then map_option int (parseDigits 10 (tl s))
      else map_option int (parseDigits 10 s))"

definition BigInt :: "jsval \<Rightarrow> error + int" where
  "BigInt v =
     (case v of
        JUndefined \<Rightarrow> Inl (TypeError ''Cannot convert undefined to a BigInt'')
      | JNumber n \<Rightarrow> Inr n
      | JString s \<Rightarrow>
          (case StringToBigInt s of
             None \<Rightarrow> Inl (SyntaxError (''Cannot convert '' @ s @ '' to a BigInt''))
           | Some n \<Rightarrow> Inr n))"

text \<open>\<open>convertType\<close> of AlethioClient.js.\<close>

definition AlethioClient_convertType :: "string \<Rightarrow> MessageType" where
  "AlethioClient_convertType msgType =
     (if msgType = ''ValueContractMsg'' \<or> msgType = ''ValueTx'' then Value
      else if msgType = ''CreateContractMsg'' \<or> msgType = ''CreateTx'' then Value
      else if msgType = ''SelfdestructContractMsg'' \<or> msgType = ''SelfdestructTx''
        then Selfdestruct
      else Call)"

text \<open>
  The message objects of the Alethio client, and one element of \<open>response.data.data\<close> as
  the client reads it. \<open>cm_from\<close> and \<open>cm_to\<close> stand for \<open>relationships.from.data.id\<close> and
  \<open>relationships.to.data.id\<close>: \<open>None\<close> when the path to the id is broken, where reading it
  throws a TypeError.
\<close>

record Message =
  m_id :: int
  m_type :: MessageType
  m_from :: string
  m_to :: string
  m_value :: int
  m_payload :: "string option"
  m_gasUsed :: int
  m_gasLimit :: int
  m_callDepth :: int
  m_status :: bool
  m_error :: "string option"

record ContractMessage =
  cm_cmsgIndex :: int
  cm_msgType :: string
  cm_from :: "string option"
  cm_to :: "string option"
  cm_value :: jsval
  cm_msgPayload :: "string option"
  cm_msgGasUsed :: jsval
  cm_msgGasLimit :: jsval
  cm_msgCallDepth :: int
  cm_msgError :: bool
  cm_msgErrorString :: "string option"

definition undefinedRead :: error where
  "undefinedRead = TypeError ''Cannot read property of undefined''"

text \<open>
  The object literal pushed for one contract message. Its properties are evaluated in the
  order written: the two ids, then the three conversions.
\<close>

definition toMessage :: "ContractMessage \<Rightarrow> error + Message" where
  "toMessage contractMessage =
     (case cm_from contractMessage of None \<Rightarrow> Inl undefinedRead | Some sender \<Rightarrow>
      case cm_to contractMessage of None \<Rightarrow> Inl undefinedRead | Some recipient \<Rightarrow>
      case BigInt (cm_value contractMessage) of Inl e \<Rightarrow> Inl e | Inr v \<Rightarrow>
      case BigInt (cm_msgGasUsed contractMessage) of Inl e \<Rightarrow> Inl e | Inr gasUsed \<Rightarrow>
      case BigInt (cm_msgGasLimit contractMessage) of Inl e \<Rightarrow> Inl e | Inr gasLimit \<Rightarrow>
        Inr \<lparr> m_id = cm_cmsgIndex contractMessage,
              m_type = AlethioClient_convertType (cm_msgType contractMessage),
              m_from = sender,
              m_to = recipient,
              m_value = v,
              m_payload = cm_msgPayload contractMessage,
              m_gasUsed = gasUsed,
              m_gasLimit = gasLimit,
              m_callDepth = cm_msgCallDepth contractMessage,
              m_status = (\<not> cm_msgError contractMessage),
              m_error = cm_msgErrorString contractMessage \<rparr>)"

text \<open>The loop \<open>for (const contractMessage of response.data.data) messages.push(...)\<close>.\<close>

fun pushMessages :: "ContractMessage list \<Rightarrow> Message list \<Rightarrow> error + Message list" where
  "pushMessages [] messages = Inr messages"
| "pushMessages (contractMessage # rest) messages =
     (case toMessage contractMessage of
        Inl e \<Rightarrow> Inl e
      | Inr m \<Rightarrow> pushMessages rest (messages @ [m]))"

text \<open>
  One response of the endpoint \<open>contractMessages\<close>: \<open>pg_data\<close> is \<open>response.data.data\<close>
  when that is an array, \<open>pg_hasNext\<close> says whether \<open>response.data.meta.page.hasNext\<close> is
  there and truthy, and \<open>pg_next\<close> is the string \<open>response.data.links.next\<close>, \<open>None\<close> when
  there is none to call \<open>split\<close> on.
\<close>

record Page =
  pg_data :: "ContractMessage list option"
  pg_hasNext :: bool
  pg_next :: "string option"

text \<open>
  The network. A request is what \<open>axios.get\<close> sends: the URL, the parameters
  \<open>page[limit]\<close> and \<open>page[next]\<close>, and the header \<open>Authorization\<close> of the axios defaults. The
  server is a function from requests to responses, \<open>Inl\<close> when the request fails. The state
  of axios is the default header, which the clients assign, and the requests sent so far.
\<close>

record Request =
  rq_url :: string
  rq_limit :: "nat option"
  rq_next :: "string option"
  rq_authorization :: "string option"

record Axios =
  ax_authorization :: "string option"
  ax_requests :: "Request list"

definition alethioBaseUrls :: "(string \<times> string) list" where
  "alethioBaseUrls =
     [(''mainnet'', ''https://api.aleth.io/v1''),
      (''ropsten'', ''https://api.ropsten.aleth.io/v1''),
      (''rinkeby'', ''https://api.rinkebyaleth.io/v1''),
      (''kovan'', ''https://api.kovan.aleth.io/v1'')]"

text \<open>
  \<open>alethioBaseUrls[network]\<close> inside the template literal of the URL. The object is a
  plain literal, so a key that is not its own is looked up in \<open>Object.prototype\<close>: there
  the members are native functions, whose text in the template is that of
  \<open>Function.prototype.toString\<close> on Node.js, and the accessor \<open>__proto__\<close>, which yields the
  prototype object itself. Any other key yields \<open>undefined\<close>.
\<close>

definition nativeFunction :: "string \<Rightarrow> string" where
  "nativeFunction name = ''function '' @ name @ ''() { [native code] }''"

definition objectPrototype :: "(string \<times> string) list" where
  "objectPrototype =
     [(''constructor'', nativeFunction ''Object''),
      (''__defineGetter__'', nativeFunction ''__defineGetter__''),
      (''__defineSetter__'', nativeFunction ''__defineSetter__''),
      (''hasOwnProperty'', nativeFunction ''hasOwnProperty''),
      (''__lookupGetter__'', nativeFunction ''__lookupGetter__''),
      (''__lookupSetter__'', nativeFunction ''__lookupSetter__''),
      (''isPrototypeOf'', nativeFunction ''isPrototypeOf''),
      (''propertyIsEnumerable'', nativeFunction ''propertyIsEnumerable''),
      (''toString'', nativeFunction ''toString''),
      (''valueOf'', nativeFunction ''valueOf''),
      (''__proto__'', ''[object Object]''),
      (''toLocaleString'', nativeFunction ''toLocaleString'')]"

definition baseUrl :: "string \<Rightarrow> string" where
  "baseUrl network =
     (case map_of alethioBaseUrls network of
        Some url \<Rightarrow> url
      | None \<Rightarrow>
          (case map_of objectPrototype network of
             Some text \<Rightarrow> text
           | None \<Rightarrow> ''undefined''))"

definition setAuthorization :: "string option \<Rightarrow> Axios \<Rightarrow> Axios" where
  "setAuthorization apiKey ax = (if truthy apiKey then ax\<lparr>ax_authorization := apiKey\<rparr> else ax)"

definition sent :: "Request \<Rightarrow> Axios \<Rightarrow> Axios" where
  "sent request ax = ax\<lparr>ax_requests := ax_requests ax @ [request]\<rparr>"

definition contractMessagesRequest ::
  "string \<Rightarrow> string \<Rightarrow> string option \<Rightarrow> string option \<Rightarrow> Request" where
  "contractMessagesRequest network txHash cursor authorization =
     \<lparr> rq_url = baseUrl network @ ''/transactions/'' @ txHash @ ''/contractMessages'',
       rq_limit = Some 100,
       rq_next = cursor,
       rq_authorization = authorization \<rparr>"

text \<open>\<open>String.prototype.split\<close> on a separator of one character, and \<open>split('=').pop()\<close>.\<close>

fun split :: "char \<Rightarrow> string \<Rightarrow> string list" where
  "split sep [] = [[]]"
| "split sep (c # cs) =
     (if c = sep then [] # split sep cs
      else (case split sep cs of [] \<Rightarrow> [[c]] | w # ws \<Rightarrow> (c # w) # ws))"

definition nextCursor :: "string \<Rightarrow> string" where
  "nextCursor next = last (split CHR ''='' next)"


definition failedContractMessages :: "string \<Rightarrow> error \<Rightarrow> error" where
  "failedContractMessages txHash err =
     VError err (''Failed to get contract messages for transaction hash '' @ txHash
                 @ '' from Alethio'')"

text \<open>
  \<open>getContractMessagesRecursive\<close>. It calls itself for as long as the server announces a
  further page, so it need not return: it is a partial function, and \<open>None\<close> is the run that
  never ends. The two checks before the \<open>try\<close> throw as they are; what is thrown inside the
  \<open>try\<close> is wrapped; the promise of the recursive call is returned without \<open>await\<close>, so its
  rejection passes through unwrapped. The recursive call passes neither \<open>apiKey\<close> nor
  \<open>network\<close>.
\<close>

partial_function (option) getContractMessagesRecursive ::
  "(Request \<Rightarrow> error + Page) \<Rightarrow> string \<Rightarrow> string \<Rightarrow> Message list \<Rightarrow> string option \<Rightarrow> string
     \<Rightarrow> Axios \<Rightarrow> ((error + Message list) \<times> Axios) option"
where
  "getContractMessagesRecursive http txHash cursor messages apiKey network ax =
     (if \<not> transactionHash txHash then Some (Inl (hashTypeError txHash), ax)
      else if cursor = [] then
        Some (Inl (TypeError (''Missing Alethio pagination cursor '' @ quoted cursor)), ax)
      else
        (let ax1 = setAuthorization apiKey ax;
             request = contractMessagesRequest network txHash (Some cursor) (ax_authorization ax1);
             ax2 = sent request ax1
         in case http request of
              Inl err \<Rightarrow> Some (Inl (failedContractMessages txHash err), ax2)
            | Inr response \<Rightarrow>
                (case pg_data response of
                   None \<Rightarrow>
                     Some (Inl (failedContractMessages txHash
                                  (Error ''no contract messages in Alethio response'')), ax2)
                 | Some data \<Rightarrow>
                     (case pushMessages data [] of
                        Inl err \<Rightarrow> Some (Inl (failedContractMessages txHash err), ax2)
                      | Inr cursorMessages \<Rightarrow>
                          if pg_hasNext response then
                            (case pg_next response of
                               None \<Rightarrow>
                                 Some (Inl (failedContractMessages txHash undefinedRead), ax2)
                             | Some next \<Rightarrow>
                                 getContractMessagesRecursive http txHash (nextCursor next)
                                   (messages @ cursorMessages) None ''mainnet'' ax2)
                          else Some (Inr (messages @ cursorMessages), ax2)))))"

text \<open>
  \<open>getContractMessages\<close>. The recursive call is awaited inside the \<open>try\<close>, so whatever it
  throws is wrapped here. \<open>Array.prototype.sort\<close> with the comparator \<open>a.id - b.id\<close> is a
  stable sort by id; so is \<open>sort_key\<close>.
\<close>

definition getContractMessages ::
  "(Request \<Rightarrow> error + Page) \<Rightarrow> string \<Rightarrow> string option \<Rightarrow> string \<Rightarrow> Axios
     \<Rightarrow> ((error + Message list) \<times> Axios) option"
where
  "getContractMessages http txHash apiKey network ax =
     (if \<not> transactionHash txHash then Some (Inl (hashTypeError txHash), ax)
      else
        (let ax1 = setAuthorization apiKey ax;
             request = contractMessagesRequest network txHash None (ax_authorization ax1);
             ax2 = sent request ax1
         in case http request of
              Inl err \<Rightarrow> Some (Inl (failedContractMessages txHash err), ax2)
            | Inr response \<Rightarrow>
                (case pg_data response of
                   None \<Rightarrow>
                     Some (Inl (failedContractMessages txHash
                                  (Error ''no contract messages in Alethio response'')), ax2)
                 | Some data \<Rightarrow>
                     (case pushMessages data [] of
                        Inl err \<Rightarrow> Some (Inl (failedContractMessages txHash err), ax2)
                      | Inr messages \<Rightarrow>
                          if pg_hasNext response then
                            (case pg_next response of
                               None \<Rightarrow>
                                 Some (Inl (failedContractMessages txHash undefinedRead), ax2)
                             | Some next \<Rightarrow>
                                 (case getContractMessagesRecursive http txHash
                                         (nextCursor next) messages None ''mainnet'' ax2 of
                                    None \<Rightarrow> None
                                  | Some (Inl err, ax3) \<Rightarrow>
                                      Some (Inl (failedContractMessages txHash err), ax3)
                                  | Some (Inr allMessages, ax3) \<Rightarrow>
                                      Some (Inr (sort_key m_id allMessages), ax3)))
                          else Some (Inr (sort_key m_id messages), ax2)))))"

text \<open>
  \<open>getTransactionDetails\<close>: what it reads of the response, and what it returns.
  \<open>ta_from\<close> and \<open>ta_to\<close> are \<open>relationships.from.data.id\<close> and \<open>relationships.to.data.id\<close>,
  as for a contract message. The timestamp is the number of milliseconds that
  \<open>new Date\<close> is given.
\<close>

record TxAttributes =
  ta_txNonce :: int
  ta_txIndex :: int
  ta_value :: jsval
  ta_txGasPrice :: jsval
  ta_blockCreationTime :: int
  ta_msgError :: bool
  ta_msgErrorString :: "string option"
  ta_msgType :: string
  ta_msgPayload :: "string option"
  ta_txGasUsed :: jsval
  ta_msgGasLimit :: jsval

record TxRelationships =
  tr_from :: "string option"
  tr_to :: "string option"

record TxResponse =
  tx_attributes :: "TxAttributes option"
  tx_relationships :: "TxRelationships option"

record TransactionDetails =
  td_hash :: string
  td_nonce :: int
  td_index :: int
  td_value :: int
  td_gasPrice :: int
  td_timestamp :: int
  td_status :: bool
  td_error :: "string option"

definition transactionRequest :: "string \<Rightarrow> string \<Rightarrow> string option \<Rightarrow> Request" where
  "transactionRequest network txHash authorization =
     \<lparr> rq_url = baseUrl network @ ''/transactions/'' @ txHash,
       rq_limit = None,
       rq_next = None,
       rq_authorization = authorization \<rparr>"

definition detailsAndFirstMessage ::
  "string \<Rightarrow> TxAttributes \<Rightarrow> TxRelationships \<Rightarrow> error + TransactionDetails \<times> Message" where
  "detailsAndFirstMessage txHash attributes relationships =
     (case BigInt (ta_value attributes) of Inl e \<Rightarrow> Inl e | Inr v \<Rightarrow>
      case BigInt (ta_txGasPrice attributes) of Inl e \<Rightarrow> Inl e | Inr gasPrice \<Rightarrow>
      case tr_from relationships of None \<Rightarrow> Inl undefinedRead | Some sender \<Rightarrow>
      case tr_to relationships of None \<Rightarrow> Inl undefinedRead | Some recipient \<Rightarrow>
      case BigInt (ta_value attributes) of Inl e \<Rightarrow> Inl e | Inr v' \<Rightarrow>
      case BigInt (ta_txGasUsed attributes) of Inl e \<Rightarrow> Inl e | Inr gasUsed \<Rightarrow>
      case BigInt (ta_msgGasLimit attributes) of Inl e \<Rightarrow> Inl e | Inr gasLimit \<Rightarrow>
        Inr (\<lparr> td_hash = txHash,
               td_nonce = ta_txNonce attributes,
               td_index = ta_txIndex attributes,
               td_value = v,
               td_gasPrice = gasPrice,
               td_timestamp = ta_blockCreationTime attributes * 1000,
               td_status = (\<not> ta_msgError attributes),
               td_error = ta_msgErrorString attributes \<rparr>,
             \<lparr> m_id = 0,
               m_type = AlethioClient_convertType (ta_msgType attributes),
               m_from = sender,
               m_to = recipient,
               m_value = v',
               m_payload = ta_msgPayload attributes,
               m_gasUsed = gasUsed,
               m_gasLimit = gasLimit,
               m_callDepth = 0,
               m_status = (\<not> ta_msgError attributes),
               m_error = ta_msgErrorString attributes \<rparr>))"

definition getTransactionDetails ::
  "(Request \<Rightarrow> error + TxResponse) \<Rightarrow> string \<Rightarrow> string option \<Rightarrow> string \<Rightarrow> Axios
     \<Rightarrow> (error + TransactionDetails \<times> Message) \<times> Axios"
where
  "getTransactionDetails http txHash apiKey network ax =
     (if \<not> transactionHash txHash then (Inl (hashTypeError txHash), ax)
      else
        (let ax1 = setAuthorization apiKey ax;
             request = transactionRequest network txHash (ax_authorization ax1);
             ax2 = sent request ax1;
             failed = (\<lambda>err. VError err (''Failed to get transaction details for hash ''
                                         @ txHash @ '' from Alethio''))
         in case http request of
              Inl err \<Rightarrow> (Inl (failed err), ax2)
            | Inr response \<Rightarrow>
                (case tx_attributes response of
                   None \<Rightarrow>
                     (Inl (failed (Error ''no transaction attributes in Alethio response'')), ax2)
                 | Some attributes \<Rightarrow>
                     (case tx_relationships response of
                        None \<Rightarrow>
                          (Inl (failed (Error ''no transaction relationships in Alethio response'')),
                           ax2)
                      | Some relationships \<Rightarrow>
                          (case detailsAndFirstMessage txHash attributes relationships of
                             Inl err \<Rightarrow> (Inl (failed err), ax2)
                           | Inr result \<Rightarrow> (Inr result, ax2))))))"

section \<open>The Geth client: fetching the trace\<close>

text \<open>
  The client object with its counter of JSON-RPC ids, the body that \<open>axios.post\<close> sends, and
  what \<open>getTransactionTrace\<close> reads of the response: the message of \<open>response.data.error\<close>,
  the call tree \<open>response.data.result\<close>, and whether that result has \<open>structLogs\<close>. The
  function returns its result, the client with the counter advanced, and the requests it
  has posted.
\<close>

record GethClient =
  gc_url :: string
  gc_network :: string
  gc_jsonRpcId :: nat

record RpcRequest =
  rpc_url :: string
  rpc_id :: nat
  rpc_method :: string
  rpc_txHash :: string
  rpc_tracer :: string

record RpcResponse =
  rr_errorMessage :: "string option"
  rr_result :: "CallResponse option"
  rr_structLogs :: bool

definition getTransactionTrace ::
  "(RpcRequest \<Rightarrow> error + RpcResponse) \<Rightarrow> GethClient \<Rightarrow> string
     \<Rightarrow> (error + Trace list) \<times> GethClient \<times> RpcRequest list"
where
  "getTransactionTrace post this txHash =
     (if \<not> transactionHash txHash then (Inl (hashTypeError txHash), this, [])
      else
        (let request = \<lparr> rpc_url = gc_url this, rpc_id = gc_jsonRpcId this,
                          rpc_method = ''debug_traceTransaction'', rpc_txHash = txHash,
                          rpc_tracer = ''callTracer'' \<rparr>;
             this' = this\<lparr>gc_jsonRpcId := gc_jsonRpcId this + 1\<rparr>;
             failed = (\<lambda>err. VError err (''Failed to get transaction trace for tx hash ''
                                         @ txHash @ '' from url '' @ gc_url this @ ''.''))
         in ((case post request of
               Inl err \<Rightarrow> Inl (failed err)
             | Inr response \<Rightarrow>
                 if truthy (rr_errorMessage response)
                   then Inl (failed (Error (the (rr_errorMessage response))))
                 else
                   (case rr_result response of
                      None \<Rightarrow>
                        Inl (failed (Error ''no transaction trace messages in response.''))
                    | Some result \<Rightarrow>
                        if \<not> truthy (cr_from (cr_fields result)) then
                          (if rr_structLogs response
                             then Inl (failed (Error ''Have you set the --nodeType option correctly?''))
                           else Inl (failed (Error ''no transaction trace messages in response.'')))
                        else
                          (case addTraces result [] 0 0 None of
                             Inl err \<Rightarrow> Inl (failed err)
                           | Inr (traces, n) \<Rightarrow> Inr traces))),
             this', [request])))"

subsection \<open>Pages as a server hands them out\<close>





















section \<open>Properties of the flattener\<close>

subsection \<open>Evaluation and the new object\<close>

lemmas eval_defs = numbersParse_def convertBigNumber_def truthy_def
  BigNumber_from_def isDigit_def digitValue_def digitsValue_def newTrace_def
  GethClient_convertType_def linkAndPush_def

lemma copied_strip: "copied c (strip m) = copied c m"
  by (simp add: copied_def strip_def)

lemma t_id_strip: "t_id (strip m) = t_id m"
  by (simp add: strip_def)

lemma newTrace_parses:
  assumes "numbersParse c"
  shows "\<exists>m. newTrace c nid depth ty df par = Inr m"
proof -
  obtain v g u where "convertBigNumber (cr_value c) = Inr v"
      "convertBigNumber (cr_gas c) = Inr g" "convertBigNumber (cr_gasUsed c) = Inr u"
    using assms unfolding numbersParse_def by (metis sum.collapse(2))
  then show ?thesis
    by (simp add: newTrace_def)
qed

lemma newTrace_copied:
  assumes "newTrace c nid depth (GethClient_convertType c) df par = Inr m"
  shows "copied c m"
  using assms by (auto simp: newTrace_def copied_def split: sum.splits if_splits)

lemma newTrace_fields:
  assumes "newTrace c nid depth ty df par = Inr m"
  shows "t_from m = cr_from c \<and> t_delegatedFrom m = df \<and> t_parentTrace m = par
         \<and> t_type m = ty \<and> t_to m = cr_to c \<and> t_depth m = depth \<and> t_id m = nid
         \<and> t_childTraces m = []"
  using assms by (auto simp: newTrace_def split: sum.splits)

lemma strip_linkAndPush:
  "map strip (linkAndPush traces par m) = map strip traces @ [strip m]"
proof (cases par)
  case None
  then show ?thesis by (simp add: linkAndPush_def)
next
  case (Some p)
  have "map strip (traces[p := (traces ! p)\<lparr>t_childTraces := t_childTraces (traces ! p) @ [length traces]\<rparr>])
        = map strip traces"
  proof (cases "p < length traces")
    case True
    then show ?thesis
      by (intro nth_equalityI) (auto simp: nth_list_update strip_def)
  next
    case False
    then show ?thesis by (simp add: list_update_beyond not_less)
  qed
  with Some show ?thesis by (simp add: linkAndPush_def)
qed

lemma length_linkAndPush: "length (linkAndPush traces par m) = Suc (length traces)"
  by (simp add: linkAndPush_def split: option.splits)

lemma nth_list_update_if:
  "(xs[p := y]) ! i = (if i = p \<and> p < length xs then y else xs ! i)"
  by (cases "p < length xs") (auto simp: nth_list_update list_update_beyond not_less)

lemma nth_linkAndPush_old:
  assumes "i < length traces"
  shows "t_parentTrace (linkAndPush traces par m ! i) = t_parentTrace (traces ! i)"
    and "t_delegatedFrom (linkAndPush traces par m ! i) = t_delegatedFrom (traces ! i)"
    and "t_from (linkAndPush traces par m ! i) = t_from (traces ! i)"
    and "t_type (linkAndPush traces par m ! i) = t_type (traces ! i)"
    and "t_to (linkAndPush traces par m ! i) = t_to (traces ! i)"
    and "t_depth (linkAndPush traces par m ! i) = t_depth (traces ! i)"
    and "set (t_childTraces (traces ! i)) \<subseteq> set (t_childTraces (linkAndPush traces par m ! i))"
  using assms
  by (auto simp: linkAndPush_def nth_append nth_list_update_if split: option.splits)

lemma nth_linkAndPush_new: "linkAndPush traces par m ! length traces = m"
  by (simp add: linkAndPush_def nth_append split: option.splits)

lemma nth_linkAndPush_parent:
  assumes "p < length traces"
  shows "length traces \<in> set (t_childTraces (linkAndPush traces (Some p) m ! p))"
  using assms by (simp add: linkAndPush_def nth_append)

lemma linked_linkAndPush:
  assumes inv: "linked traces"
    and par: "\<And>p. par = Some p \<Longrightarrow> p < length traces"
    and m: "newTrace c nid depth ty
              (case par of None \<Rightarrow> cr_from c
               | Some p \<Rightarrow> if t_type (traces ! p) = DelegateCall then t_to (traces ! p)
                           else cr_from c) par = Inr m"
    and d: "\<And>p. par = Some p \<Longrightarrow> depth = t_depth (traces ! p) + 1"
  shows "linked (linkAndPush traces par m)"
  unfolding linked_def
proof (intro allI impI)
  fix i
  assume "i < length (linkAndPush traces par m)"
  then have "i < length traces \<or> i = length traces"
    by (auto simp: length_linkAndPush)
  then show "case t_parentTrace (linkAndPush traces par m ! i) of
          None \<Rightarrow> t_delegatedFrom (linkAndPush traces par m ! i) = t_from (linkAndPush traces par m ! i)
        | Some p \<Rightarrow>
            p < i \<and> i \<in> set (t_childTraces (linkAndPush traces par m ! p))
            \<and> t_depth (linkAndPush traces par m ! i) = t_depth (linkAndPush traces par m ! p) + 1
            \<and> t_delegatedFrom (linkAndPush traces par m ! i) =
                (if t_type (linkAndPush traces par m ! p) = DelegateCall
                 then t_to (linkAndPush traces par m ! p)
                 else t_from (linkAndPush traces par m ! i))"
  proof
    assume old: "i < length traces"
    from inv old have h: "case t_parentTrace (traces ! i) of
          None \<Rightarrow> t_delegatedFrom (traces ! i) = t_from (traces ! i)
        | Some p \<Rightarrow>
            p < i \<and> i \<in> set (t_childTraces (traces ! p))
            \<and> t_depth (traces ! i) = t_depth (traces ! p) + 1
            \<and> t_delegatedFrom (traces ! i) =
                (if t_type (traces ! p) = DelegateCall then t_to (traces ! p)
                 else t_from (traces ! i))"
      unfolding linked_def by blast
    show ?thesis
    proof (cases "t_parentTrace (traces ! i)")
      case None
      with h old show ?thesis by (simp add: nth_linkAndPush_old)
    next
      case (Some q)
      with h have q: "q < i" by simp
      with old have ql: "q < length traces" by simp
      from Some h have "i \<in> set (t_childTraces (traces ! q))" by simp
      with nth_linkAndPush_old(7)[OF ql, of par m]
      have ch: "i \<in> set (t_childTraces (linkAndPush traces par m ! q))" by blast
      from Some h old ql ch show ?thesis
        by (simp add: nth_linkAndPush_old)
    qed
  next
    assume new: "i = length traces"
    note f = newTrace_fields[OF m]
    show ?thesis
    proof (cases par)
      case None
      with f new show ?thesis by (simp add: nth_linkAndPush_new)
    next
      case (Some p)
      with par have pl: "p < length traces" by simp
      from d[OF Some] have "depth = t_depth (traces ! p) + 1" .
      with Some f new pl nth_linkAndPush_parent[OF pl, of m] show ?thesis
        by (simp add: nth_linkAndPush_new nth_linkAndPush_old)
    qed
  qed
qed

subsection \<open>One message for each call, in pre-order\<close>

text \<open>
  The flattener on any array and any counter: it appends one object for each call of the
  tree, in pre-order, numbers them from the counter on, returns the counter advanced by the
  number of calls, and changes nothing of the objects already there but their lists of
  children.
\<close>

lemma addTraces_flat:
  "wellformed c \<Longrightarrow>
     \<exists>traces' news. addTraces c traces nid depth par = Inr (traces', nid + length (preorder c))
        \<and> map strip traces' = map strip traces @ news
        \<and> list_all2 copied (preorder c) news
        \<and> map t_id news = [nid..<nid + length (preorder c)]"
  and addTraces_forEach_flat:
  "wellformedList cs \<Longrightarrow>
     \<exists>traces' news. addTraces_forEach cs traces nid depth par = Inr (traces', nid + length (preorderList cs))
        \<and> map strip traces' = map strip traces @ news
        \<and> list_all2 copied (preorderList cs) news
        \<and> map t_id news = [nid..<nid + length (preorderList cs)]"
proof (induction c traces nid depth par and cs traces nid depth par
       rule: addTraces_addTraces_forEach.induct)
  case (1 callResponse calls traces nextId depth parentTrace)
  let ?df = "case parentTrace of None \<Rightarrow> cr_from callResponse
              | Some p \<Rightarrow> if t_type (traces ! p) = DelegateCall then t_to (traces ! p)
                          else cr_from callResponse"
  from "1.prems" have np: "numbersParse callResponse" by simp
  from newTrace_parses[OF np, of nextId depth "GethClient_convertType callResponse" ?df parentTrace]
  obtain m where
    m: "newTrace callResponse nextId depth (GethClient_convertType callResponse) ?df parentTrace = Inr m"
    by blast
  have cm: "copied callResponse m" using m by (rule newTrace_copied)
  have idm: "t_id m = nextId" using newTrace_fields[OF m] by simp
  show ?case
  proof (cases calls)
    case None
    have "map strip (linkAndPush traces parentTrace m) = map strip traces @ [strip m]"
      by (rule strip_linkAndPush)
    moreover have "list_all2 copied [callResponse] [strip m]"
      using cm by (simp add: copied_strip)
    moreover have "map t_id [strip m] = [nextId..<nextId + 1]"
      using idm by (simp add: t_id_strip)
    ultimately show ?thesis
      using None m by (intro exI[of _ "linkAndPush traces parentTrace m"] exI[of _ "[strip m]"]) simp
  next
    case (Some childCalls)
    from "1.prems" Some have wl: "wellformedList childCalls" by simp
    from "1.IH"[OF m Some wl]
    obtain traces' news where
      r: "addTraces_forEach childCalls (linkAndPush traces parentTrace m) (nextId + 1) (depth + 1)
            (Some (length traces)) = Inr (traces', nextId + 1 + length (preorderList childCalls))"
      and s: "map strip traces' = map strip (linkAndPush traces parentTrace m) @ news"
      and c: "list_all2 copied (preorderList childCalls) news"
      and i: "map t_id news = [nextId + 1..<nextId + 1 + length (preorderList childCalls)]"
      by blast
    have s': "map strip traces' = map strip traces @ (strip m # news)"
      using s by (simp add: strip_linkAndPush)
    have c': "list_all2 copied (preorder (CallResponse callResponse calls)) (strip m # news)"
      using c cm Some by (simp add: copied_strip)
    have i': "map t_id (strip m # news)
              = [nextId..<nextId + length (preorder (CallResponse callResponse calls))]"
      using i idm Some by (simp del: upt_Suc add: t_id_strip upt_conv_Cons)
    show ?thesis
      using r s' c' i' m Some
      by (intro exI[of _ traces'] exI[of _ "strip m # news"]) simp
  qed
next
  case (2 traces nextId depth newTraceRef)
  then show ?case by simp
next
  case (3 childCall rest traces nextId depth newTraceRef)
  from "3.prems" have wc: "wellformed childCall" and wr: "wellformedList rest" by simp_all
  from "3.IH"(1)[OF wc]
  obtain traces1 news1 where
    r1: "addTraces childCall traces nextId depth newTraceRef
           = Inr (traces1, nextId + length (preorder childCall))"
    and s1: "map strip traces1 = map strip traces @ news1"
    and c1: "list_all2 copied (preorder childCall) news1"
    and i1: "map t_id news1 = [nextId..<nextId + length (preorder childCall)]"
    by blast
  from "3.IH"(2)[OF r1 refl wr]
  obtain traces2 news2 where
    r2: "addTraces_forEach rest traces1 (nextId + length (preorder childCall)) depth newTraceRef
           = Inr (traces2, nextId + length (preorder childCall) + length (preorderList rest))"
    and s2: "map strip traces2 = map strip traces1 @ news2"
    and c2: "list_all2 copied (preorderList rest) news2"
    and i2: "map t_id news2 = [nextId + length (preorder childCall)..<
               nextId + length (preorder childCall) + length (preorderList rest)]"
    by blast
  have s: "map strip traces2 = map strip traces @ (news1 @ news2)"
    using s1 s2 by simp
  have c: "list_all2 copied (preorderList (childCall # rest)) (news1 @ news2)"
    using c1 c2 by (simp add: list_all2_appendI)
  have len: "nextId + length (preorderList (childCall # rest))
             = nextId + length (preorder childCall) + length (preorderList rest)"
    by simp
  have "[nextId..<nextId + length (preorder childCall) + length (preorderList rest)]
        = [nextId..<nextId + length (preorder childCall)]
          @ [nextId + length (preorder childCall)..<
             nextId + length (preorder childCall) + length (preorderList rest)]"
    by (rule upt_add_eq_append) simp
  then have i: "map t_id (news1 @ news2)
           = [nextId..<nextId + length (preorderList (childCall # rest))]"
    using i1 i2 len by (simp only: map_append)
  have r: "addTraces_forEach (childCall # rest) traces nextId depth newTraceRef
           = Inr (traces2, nextId + length (preorderList (childCall # rest)))"
    using r1 r2 len by (simp only: addTraces_forEach.simps sum.case prod.case)
  show ?case
    using r s c i by blast
qed

lemma list_all2_copied_strip:
  "list_all2 copied cs (map strip ms) = list_all2 copied cs ms"
  by (simp add: list_all2_map2 copied_strip)

lemma addTraces_top:
  assumes "wellformed c"
  shows "\<exists>traces. addTraces c [] 0 0 None = Inr (traces, length (preorder c))
           \<and> list_all2 copied (preorder c) traces
           \<and> map t_id traces = [0..<length (preorder c)]"
proof -
  from addTraces_flat[OF assms, of "[]" 0 0 None]
  obtain traces' news where r: "addTraces c [] 0 0 None = Inr (traces', length (preorder c))"
    and s: "map strip traces' = news"
    and c: "list_all2 copied (preorder c) news"
    and i: "map t_id news = [0..<length (preorder c)]"
    by auto
  from c s have "list_all2 copied (preorder c) traces'"
    using list_all2_copied_strip[of "preorder c" traces'] by simp
  moreover from i s have "map t_id traces' = [0..<length (preorder c)]"
    by (auto simp: t_id_strip comp_def)
  ultimately show ?thesis using r by blast
qed

lemma list_all2_map_eq:
  assumes "list_all2 R xs ys" and "\<And>x y. R x y \<Longrightarrow> g y = h x"
  shows "map g ys = map h xs"
  using assms by (induction rule: list_all2_induct) auto

lemma linked_Nil: "linked []"
  by (simp add: linked_def)

subsection \<open>The links stay consistent\<close>

lemma addTraces_linked:
  "linked traces \<Longrightarrow> (\<And>p. par = Some p \<Longrightarrow> p < length traces \<and> depth = t_depth (traces ! p) + 1)
     \<Longrightarrow> addTraces c traces nid depth par = Inr (traces', n)
     \<Longrightarrow> linked traces' \<and> length traces \<le> length traces'
         \<and> (\<forall>i<length traces. t_depth (traces' ! i) = t_depth (traces ! i))"
  and addTraces_forEach_linked:
  "linked traces \<Longrightarrow> (\<And>p. par = Some p \<Longrightarrow> p < length traces \<and> depth = t_depth (traces ! p) + 1)
     \<Longrightarrow> addTraces_forEach cs traces nid depth par = Inr (traces', n)
     \<Longrightarrow> linked traces' \<and> length traces \<le> length traces'
         \<and> (\<forall>i<length traces. t_depth (traces' ! i) = t_depth (traces ! i))"
proof (induction c traces nid depth par and cs traces nid depth par arbitrary: traces' n and traces' n
       rule: addTraces_addTraces_forEach.induct)
  case (1 callResponse calls traces nextId depth parentTrace)
  let ?df = "case parentTrace of None \<Rightarrow> cr_from callResponse
              | Some p \<Rightarrow> if t_type (traces ! p) = DelegateCall then t_to (traces ! p)
                          else cr_from callResponse"
  from "1.prems"(3) obtain m where
    m: "newTrace callResponse nextId depth (GethClient_convertType callResponse) ?df parentTrace = Inr m"
    by (auto split: sum.splits)
  have inv1: "linked (linkAndPush traces parentTrace m)"
    using "1.prems"(1,2) m by (intro linked_linkAndPush[where c = callResponse]) auto
  have dep1: "\<forall>i<length traces. t_depth (linkAndPush traces parentTrace m ! i) = t_depth (traces ! i)"
    by (simp add: nth_linkAndPush_old)
  show ?case
  proof (cases calls)
    case None
    with "1.prems"(3) m have "traces' = linkAndPush traces parentTrace m" by simp
    with inv1 dep1 show ?thesis by (simp add: length_linkAndPush)
  next
    case (Some childCalls)
    with "1.prems"(3) m have
      r: "addTraces_forEach childCalls (linkAndPush traces parentTrace m) (nextId + 1) (depth + 1)
            (Some (length traces)) = Inr (traces', n)" by simp
    have pm: "\<And>p. Some (length traces) = Some p \<Longrightarrow>
                p < length (linkAndPush traces parentTrace m)
                \<and> depth + 1 = t_depth (linkAndPush traces parentTrace m ! p) + 1"
      using newTrace_fields[OF m] by (auto simp: length_linkAndPush nth_linkAndPush_new)
    from "1.IH"[OF m Some inv1 pm r]
    have "linked traces'" and "length (linkAndPush traces parentTrace m) \<le> length traces'"
      and "\<forall>i<length (linkAndPush traces parentTrace m).
             t_depth (traces' ! i) = t_depth (linkAndPush traces parentTrace m ! i)"
      by blast+
    with dep1 show ?thesis by (auto simp: length_linkAndPush)
  qed
next
  case (2 traces nextId depth newTraceRef)
  then show ?case by simp
next
  case (3 childCall rest traces nextId depth newTraceRef)
  from "3.prems"(3) obtain traces1 n1 where
    r1: "addTraces childCall traces nextId depth newTraceRef = Inr (traces1, n1)"
    and r2: "addTraces_forEach rest traces1 n1 depth newTraceRef = Inr (traces', n)"
    by (auto split: sum.splits)
  from "3.IH"(1)[OF "3.prems"(1,2) r1]
  have l1: "linked traces1" and le1: "length traces \<le> length traces1"
    and d1: "\<forall>i<length traces. t_depth (traces1 ! i) = t_depth (traces ! i)" by blast+
  have p1: "\<And>p. newTraceRef = Some p \<Longrightarrow> p < length traces1 \<and> depth = t_depth (traces1 ! p) + 1"
    using "3.prems"(2) le1 d1 by fastforce
  from "3.IH"(2)[OF r1 refl l1 p1 r2]
  have "linked traces'" and "length traces1 \<le> length traces'"
    and "\<forall>i<length traces1. t_depth (traces' ! i) = t_depth (traces1 ! i)" by blast+
  with le1 d1 show ?case by auto
qed

lemma addTraces_chain:
  assumes nr: "numbersParse r" and n1: "numbersParse d1" and n2: "numbersParse d2"
    and tr: "GethClient_convertType r \<noteq> DelegateCall"
    and t1: "GethClient_convertType d1 = DelegateCall"
    and leaf: "leaf = None \<or> leaf = Some []"
  shows "\<exists>traces. addTraces (CallResponse r (Some [CallResponse d1 (Some [CallResponse d2 leaf])]))
                     [] 0 0 None = Inr (traces, 3)
           \<and> length traces = 3
           \<and> map t_from traces = [cr_from r, cr_from d1, cr_from d2]
           \<and> map t_to traces = [cr_to r, cr_to d1, cr_to d2]
           \<and> map t_delegatedFrom traces = [cr_from r, cr_from d1, cr_to d1]"
proof -
  define mk where "mk = (\<lambda>c nid depth ty df par. projr (newTrace c nid depth ty df par))"
  have mkI: "newTrace c nid depth ty df par = Inr (mk c nid depth ty df par)"
    if "numbersParse c" for c nid depth ty df par
    using newTrace_parses[OF that, of nid depth ty df par] unfolding mk_def by auto
  have mkF: "t_from (mk c nid depth ty df par) = cr_from c \<and> t_to (mk c nid depth ty df par) = cr_to c
      \<and> t_delegatedFrom (mk c nid depth ty df par) = df
      \<and> t_type (mk c nid depth ty df par) = ty
      \<and> t_childTraces (mk c nid depth ty df par) = []"
    if "numbersParse c" for c nid depth ty df par
    using newTrace_fields[OF mkI[OF that, of nid depth ty df par]] by simp
  note F0 = mkF[OF nr] and F1 = mkF[OF n1] and F2 = mkF[OF n2]
  let ?m0 = "(mk r 0 0 (GethClient_convertType r) (cr_from r) None)\<lparr>t_childTraces := [1]\<rparr>"
  let ?m1 = "(mk d1 1 1 DelegateCall (cr_from d1) (Some 0))\<lparr>t_childTraces := [2]\<rparr>"
  let ?m2 = "mk d2 2 2 (GethClient_convertType d2) (cr_to d1) (Some 1)"
  have c1: "addTraces (CallResponse r (Some [CallResponse d1 (Some [CallResponse d2 leaf])]))
              [] 0 0 None = Inr ([?m0, ?m1, ?m2], 3)"
    using leaf tr t1
    by (auto simp: mkI[OF nr] mkI[OF n1] mkI[OF n2] F0 F1 F2 linkAndPush_def numeral_2_eq_2)
  moreover have "map t_from [?m0, ?m1, ?m2] = [cr_from r, cr_from d1, cr_from d2]"
    by (simp add: F0 F1 F2)
  moreover have "map t_to [?m0, ?m1, ?m2] = [cr_to r, cr_to d1, cr_to d2]"
    by (simp add: F0 F1 F2)
  moreover have "map t_delegatedFrom [?m0, ?m1, ?m2] = [cr_from r, cr_from d1, cr_to d1]"
    by (simp add: F0 F1 F2)
  ultimately show ?thesis
    by (intro exI[of _ "[?m0, ?m1, ?m2]"]) simp
qed

subsection \<open>Attribution, order, errors and defaults\<close>

text \<open>
  C1, as amended. For every call tree of the shape
  Root -CALL-> A -DELEGATECALL-> B -DELEGATECALL-> C, \<open>addTraces\<close> produces a message for B
  whose \<open>delegatedFrom\<close> is A, the sender of that call, and a message for C whose
  \<open>delegatedFrom\<close> is B, the recipient of its parent delegatecall. The attribution looks at
  the immediate parent only; it is not carried along a chain of delegatecalls. The sender
  that the trace records for the call to C plays no part.
\<close>

theorem delegatecall_chain_attribution:
  assumes "numbersParse r" and "numbersParse d1" and "numbersParse d2"
    and "cr_type r = ''CALL''" and "cr_from r = Some Root" and "cr_to r = Some A"
    and "cr_type d1 = ''DELEGATECALL''" and "cr_from d1 = Some A" and "cr_to d1 = Some B"
    and "cr_type d2 = ''DELEGATECALL''" and "cr_to d2 = Some C"
    and "leaf = None \<or> leaf = Some []"
  shows "\<exists>traces. addTraces (CallResponse r (Some [CallResponse d1 (Some [CallResponse d2 leaf])]))
                     [] 0 0 None = Inr (traces, 3)
           \<and> length traces = 3
           \<and> t_to (traces ! 1) = Some B \<and> t_delegatedFrom (traces ! 1) = Some A
           \<and> t_to (traces ! 2) = Some C \<and> t_delegatedFrom (traces ! 2) = Some B"
proof -
  have tr: "GethClient_convertType r \<noteq> DelegateCall"
    using assms(4) by (simp add: GethClient_convertType_def)
  have t1: "GethClient_convertType d1 = DelegateCall"
    using assms(7) by (simp add: GethClient_convertType_def)
  from addTraces_chain[OF assms(1,2,3) tr t1 assms(12)]
  obtain traces where
    r: "addTraces (CallResponse r (Some [CallResponse d1 (Some [CallResponse d2 leaf])]))
          [] 0 0 None = Inr (traces, 3)"
    and l: "length traces = 3"
    and t: "map t_to traces = [cr_to r, cr_to d1, cr_to d2]"
    and d: "map t_delegatedFrom traces = [cr_from r, cr_from d1, cr_to d1]"
    by (elim exE conjE) (rule that)
  from l have "t_to (traces ! 1) = map t_to traces ! 1" "t_to (traces ! 2) = map t_to traces ! 2"
    "t_delegatedFrom (traces ! 1) = map t_delegatedFrom traces ! 1"
    "t_delegatedFrom (traces ! 2) = map t_delegatedFrom traces ! 2"
    by simp_all
  with t d assms(8,9,11)
  have e: "t_to (traces ! 1) = Some B" "t_delegatedFrom (traces ! 1) = Some A"
    "t_to (traces ! 2) = Some C" "t_delegatedFrom (traces ! 2) = Some B"
    by simp_all
  from r l e show ?thesis by (intro exI[of _ traces] conjI)
qed

theorem delegatecall_chain_attribution_witness:
  "\<exists>traces. addTraces chainExample [] 0 0 None = Inr (traces, 3)
     \<and> length traces = 3
     \<and> t_to (traces ! 1) = Some ''0xB'' \<and> t_delegatedFrom (traces ! 1) = Some ''0xA''
     \<and> t_to (traces ! 2) = Some ''0xC'' \<and> t_delegatedFrom (traces ! 2) = Some ''0xB''"
  unfolding chainExample_def
  by (rule delegatecall_chain_attribution) (simp_all add: eval_defs)

text \<open>
  C1 as stated fails on the chain itself: the message for C is attributed to B, not to A.
\<close>

theorem delegatecall_chain_counterexample:
  "(case addTraces chainExample [] 0 0 None of
      Inl e \<Rightarrow> []
    | Inr (traces, n) \<Rightarrow> map (\<lambda>m. (t_from m, t_to m, t_delegatedFrom m)) traces)
   = [(Some ''0xRoot'', Some ''0xA'', Some ''0xRoot''),
      (Some ''0xA'', Some ''0xB'', Some ''0xA''),
      (Some ''0xB'', Some ''0xC'', Some ''0xB'')]
   \<and> ''0xB'' \<noteq> ''0xA''"
  by (simp add: chainExample_def eval_defs)

text \<open>
  C2. For every well-formed call tree, \<open>addTraces\<close> started with the counter 0 on the empty
  array returns one message for each call of the tree, in pre-order; the ids are
  0, 1, ... up to the number of calls less one, in that order, and the counter returned is
  the number of calls.
\<close>

theorem addTraces_preorder_sequential_ids:
  assumes "wellformed callResponse"
  shows "\<exists>traces. addTraces callResponse [] 0 0 None
                    = Inr (traces, length (preorder callResponse))
           \<and> length traces = length (preorder callResponse)
           \<and> map t_id traces = [0..<length (preorder callResponse)]
           \<and> map (\<lambda>m. (t_type m, t_from m, t_to m, t_inputs m, t_outputs m, t_error m)) traces
               = map (\<lambda>c. (GethClient_convertType c, cr_from c, cr_to c, cr_input c, cr_output c, cr_error c))
                   (preorder callResponse)"
proof -
  from addTraces_top[OF assms] obtain traces where
    r: "addTraces callResponse [] 0 0 None = Inr (traces, length (preorder callResponse))"
    and c: "list_all2 copied (preorder callResponse) traces"
    and i: "map t_id traces = [0..<length (preorder callResponse)]"
    by blast
  from c have l: "length traces = length (preorder callResponse)"
    by (simp add: list_all2_lengthD)
  have "map (\<lambda>m. (t_type m, t_from m, t_to m, t_inputs m, t_outputs m, t_error m)) traces
        = map (\<lambda>c. (GethClient_convertType c, cr_from c, cr_to c, cr_input c, cr_output c, cr_error c))
            (preorder callResponse)"
    using c by (rule list_all2_map_eq) (simp add: copied_def)
  with r l i show ?thesis by blast
qed

theorem addTraces_preorder_sequential_ids_witness:
  "wellformed failingLeafExample
   \<and> (\<exists>traces. addTraces failingLeafExample [] 0 0 None = Inr (traces, 4)
        \<and> map t_id traces = [0, 1, 2, 3]
        \<and> map t_to traces = [Some ''0xA'', Some ''0xB'', Some ''0xD'', Some ''0xC''])"
proof -
  have w: "wellformed failingLeafExample" by (simp add: failingLeafExample_def eval_defs)
  have p: "map cr_to (preorder failingLeafExample)
           = [Some ''0xA'', Some ''0xB'', Some ''0xD'', Some ''0xC'']"
    by (simp add: failingLeafExample_def)
  then have n: "length (preorder failingLeafExample) = 4"
    using length_map[of cr_to "preorder failingLeafExample"] by simp
  from addTraces_preorder_sequential_ids[OF w] obtain traces where
    r: "addTraces failingLeafExample [] 0 0 None = Inr (traces, length (preorder failingLeafExample))"
    and i: "map t_id traces = [0..<length (preorder failingLeafExample)]"
    and m: "map (\<lambda>m. (t_type m, t_from m, t_to m, t_inputs m, t_outputs m, t_error m)) traces
               = map (\<lambda>c. (GethClient_convertType c, cr_from c, cr_to c, cr_input c, cr_output c, cr_error c))
                   (preorder failingLeafExample)"
    by blast
  from m have "map (\<lambda>x. fst (snd (snd x))) (map (\<lambda>m. (t_type m, t_from m, t_to m, t_inputs m, t_outputs m, t_error m)) traces)
     = map (\<lambda>x. fst (snd (snd x))) (map (\<lambda>c. (GethClient_convertType c, cr_from c, cr_to c, cr_input c, cr_output c, cr_error c))
                   (preorder failingLeafExample))" by simp
  then have "map t_to traces = map cr_to (preorder failingLeafExample)"
    by (simp add: comp_def)
  with p have t: "map t_to traces = [Some ''0xA'', Some ''0xB'', Some ''0xD'', Some ''0xC'']" by simp
  have u: "[0..<4] = [0, 1, 2, 3::nat]" by (simp add: upt_rec)
  from r n have r': "addTraces failingLeafExample [] 0 0 None = Inr (traces, 4)" by simp
  from i n u have i': "map t_id traces = [0, 1, 2, 3]" by simp
  from w r' i' t show ?thesis by (intro conjI exI[of _ traces])
qed

text \<open>
  C6, as amended. For every well-formed call tree, whatever calls carry an error,
  \<open>addTraces\<close> returns one message for each call; the message of a call carries that
  call's error string, and the message of a call without an error carries none. So a tree
  with exactly one failed call yields exactly one message with an error. The messages have
  no status property.
\<close>

theorem addTraces_error_isolated:
  assumes "wellformed callResponse"
  shows "\<exists>traces. addTraces callResponse [] 0 0 None
                    = Inr (traces, length (preorder callResponse))
           \<and> length traces = length (preorder callResponse)
           \<and> map t_error traces = map cr_error (preorder callResponse)
           \<and> length (filter (\<lambda>m. t_error m \<noteq> None) traces)
               = length (filter (\<lambda>c. cr_error c \<noteq> None) (preorder callResponse))"
proof -
  from addTraces_top[OF assms] obtain traces where
    r: "addTraces callResponse [] 0 0 None = Inr (traces, length (preorder callResponse))"
    and c: "list_all2 copied (preorder callResponse) traces"
    by blast
  from c have l: "length traces = length (preorder callResponse)"
    by (simp add: list_all2_lengthD)
  have e: "map t_error traces = map cr_error (preorder callResponse)"
    using c by (rule list_all2_map_eq) (simp add: copied_def)
  have "length (filter (\<lambda>m. t_error m \<noteq> None) traces)
        = length (filter (\<lambda>e. e \<noteq> None) (map t_error traces))"
    by (simp add: filter_map comp_def)
  also have "\<dots> = length (filter (\<lambda>e. e \<noteq> None) (map cr_error (preorder callResponse)))"
    by (simp only: e)
  also have "\<dots> = length (filter (\<lambda>c. cr_error c \<noteq> None) (preorder callResponse))"
    by (simp add: filter_map comp_def)
  finally show ?thesis using r l e by (intro exI[of _ traces] conjI)
qed

theorem addTraces_error_isolated_witness:
  "wellformed failingLeafExample
   \<and> length (filter (\<lambda>c. cr_error c \<noteq> None) (preorder failingLeafExample)) = 1
   \<and> (\<exists>traces. addTraces failingLeafExample [] 0 0 None = Inr (traces, 4)
         \<and> length traces = 4
         \<and> map t_error traces = [None, None, None, Some ''execution reverted''])"
proof -
  have w: "wellformed failingLeafExample"
    by (simp add: failingLeafExample_def eval_defs)
  have p: "map cr_error (preorder failingLeafExample)
           = [None, None, None, Some ''execution reverted'']"
    by (simp add: failingLeafExample_def)
  have n: "length (preorder failingLeafExample) = 4"
    by (simp add: failingLeafExample_def)
  have o: "length (filter (\<lambda>c. cr_error c \<noteq> None) (preorder failingLeafExample)) = 1"
    by (simp add: failingLeafExample_def)
  from addTraces_error_isolated[OF w] obtain traces where
    r: "addTraces failingLeafExample [] 0 0 None
          = Inr (traces, length (preorder failingLeafExample))"
    and l: "length traces = length (preorder failingLeafExample)"
    and e: "map t_error traces = map cr_error (preorder failingLeafExample)"
    by (elim exE conjE) (rule that)
  from r n have r': "addTraces failingLeafExample [] 0 0 None = Inr (traces, 4)" by simp
  from l n have l': "length traces = 4" by simp
  from e p have e': "map t_error traces = [None, None, None, Some ''execution reverted'']"
    by simp
  from w o r' l' e' show ?thesis by (intro conjI exI[of _ traces])
qed

text \<open>
  C6 as stated fails where it speaks of the status: on a tree whose last call failed, no
  message has a status, neither the failed one (false) nor the others (true).
\<close>

theorem addTraces_no_status_counterexample:
  "(case addTraces failingLeafExample [] 0 0 None of
      Inl e \<Rightarrow> []
    | Inr (traces, n) \<Rightarrow> map (\<lambda>m. (t_error m, t_status m)) traces)
   = [(None, None), (None, None), (None, None), (Some ''execution reverted'', None)]"
  by (simp add: failingLeafExample_def eval_defs t_status_def)

text \<open>
  C10. In the array that \<open>addTraces\<close> returns for a well-formed call tree, the message of
  a call without a value has the value 0, while the message of a call without gas has no
  gas limit and the message of a call without gasUsed has no gas used: both stay
  undefined.
\<close>

theorem addTraces_missing_value_gas:
  assumes "wellformed callResponse"
  shows "\<exists>traces. addTraces callResponse [] 0 0 None
                    = Inr (traces, length (preorder callResponse))
           \<and> length traces = length (preorder callResponse)
           \<and> (\<forall>i<length traces.
                 (cr_value (preorder callResponse ! i) = None \<longrightarrow> t_value (traces ! i) = Some 0)
                 \<and> (cr_gas (preorder callResponse ! i) = None \<longrightarrow> t_gasLimit (traces ! i) = None)
                 \<and> (cr_gasUsed (preorder callResponse ! i) = None
                      \<longrightarrow> t_gasUsed (traces ! i) = None))"
proof -
  from addTraces_top[OF assms] obtain traces where
    r: "addTraces callResponse [] 0 0 None = Inr (traces, length (preorder callResponse))"
    and c: "list_all2 copied (preorder callResponse) traces"
    by blast
  from c have l: "length traces = length (preorder callResponse)"
    by (simp add: list_all2_lengthD)
  have "\<forall>i<length traces.
          (cr_value (preorder callResponse ! i) = None \<longrightarrow> t_value (traces ! i) = Some 0)
          \<and> (cr_gas (preorder callResponse ! i) = None \<longrightarrow> t_gasLimit (traces ! i) = None)
          \<and> (cr_gasUsed (preorder callResponse ! i) = None \<longrightarrow> t_gasUsed (traces ! i) = None)"
  proof (intro allI impI)
    fix i assume "i < length traces"
    with c have "copied (preorder callResponse ! i) (traces ! i)"
      by (simp add: list_all2_conv_all_nth)
    then show "(cr_value (preorder callResponse ! i) = None \<longrightarrow> t_value (traces ! i) = Some 0)
          \<and> (cr_gas (preorder callResponse ! i) = None \<longrightarrow> t_gasLimit (traces ! i) = None)
          \<and> (cr_gasUsed (preorder callResponse ! i) = None \<longrightarrow> t_gasUsed (traces ! i) = None)"
      by (simp add: copied_def convertBigNumber_def truthy_def)
  qed
  with r l show ?thesis by (intro exI[of _ traces] conjI)
qed

theorem addTraces_missing_value_gas_witness:
  "wellformed failingLeafExample
   \<and> cr_value (preorder failingLeafExample ! 1) = None
   \<and> cr_gas (preorder failingLeafExample ! 1) = None
   \<and> cr_gasUsed (preorder failingLeafExample ! 1) = None
   \<and> (\<exists>traces. addTraces failingLeafExample [] 0 0 None = Inr (traces, 4)
         \<and> t_value (traces ! 1) = Some 0
         \<and> t_gasLimit (traces ! 1) = None
         \<and> t_gasUsed (traces ! 1) = None)"
proof -
  have w: "wellformed failingLeafExample"
    by (simp add: failingLeafExample_def eval_defs)
  have n: "length (preorder failingLeafExample) = 4"
    by (simp add: failingLeafExample_def)
  have v: "cr_value (preorder failingLeafExample ! 1) = None"
    and g: "cr_gas (preorder failingLeafExample ! 1) = None"
    and u: "cr_gasUsed (preorder failingLeafExample ! 1) = None"
    by (simp_all add: failingLeafExample_def)
  from addTraces_missing_value_gas[OF w] obtain traces where
    r: "addTraces failingLeafExample [] 0 0 None
          = Inr (traces, length (preorder failingLeafExample))"
    and l: "length traces = length (preorder failingLeafExample)"
    and a: "\<forall>i<length traces.
              (cr_value (preorder failingLeafExample ! i) = None \<longrightarrow> t_value (traces ! i) = Some 0)
              \<and> (cr_gas (preorder failingLeafExample ! i) = None \<longrightarrow> t_gasLimit (traces ! i) = None)
              \<and> (cr_gasUsed (preorder failingLeafExample ! i) = None
                   \<longrightarrow> t_gasUsed (traces ! i) = None)"
    by (elim exE conjE) (rule that)
  from r n have r': "addTraces failingLeafExample [] 0 0 None = Inr (traces, 4)" by simp
  from l n have "1 < length traces" by simp
  with a v g u have "t_value (traces ! 1) = Some 0" "t_gasLimit (traces ! 1) = None"
    "t_gasUsed (traces ! 1) = None"
    by (auto dest!: spec[of _ 1])
  with w v g u r' show ?thesis by (intro conjI exI[of _ traces])
qed

subsection \<open>The parent of a message is the message of the parent call\<close>

lemma length_parentPositions:
  "length (parentPositions par pos c) = length (preorder c)"
  "length (parentPositionsList par pos cs) = length (preorderList cs)"
  by (induction par pos c and par pos cs rule: parentPositions_parentPositionsList.induct)
    (simp_all split: option.splits)

lemma parentPositions_below:
  "None \<notin> set (tl (parentPositions par pos c))"
  "par \<noteq> None \<Longrightarrow> None \<notin> set (parentPositionsList par pos cs)"
proof (induction par pos c and par pos cs rule: parentPositions_parentPositionsList.induct)
  case (1 parent pos c calls)
  then show ?case by (cases calls) simp_all
next
  case (2 parent pos)
  then show ?case by simp
next
  case (3 parent pos c cs)
  obtain f calls where c: "c = CallResponse f calls" by (cases c)
  have "set (parentPositions parent pos c)
        = insert parent (set (tl (parentPositions parent pos c)))"
    by (simp add: c)
  with 3 show ?case by auto
qed

lemma parentPositions_root:
  assumes "i < length (preorder c)"
  shows "(parentPositions None pos c ! i = None) = (i = 0)"
proof (cases i)
  case 0
  obtain f calls where "c = CallResponse f calls" by (cases c)
  with 0 show ?thesis by simp
next
  case (Suc j)
  obtain f calls where c: "c = CallResponse f calls" by (cases c)
  from assms Suc have "j < length (tl (parentPositions None pos c))"
    by (simp add: length_parentPositions)
  then have "tl (parentPositions None pos c) ! j \<in> set (tl (parentPositions None pos c))"
    by (rule nth_mem)
  with parentPositions_below(1)[of None pos c]
  have "tl (parentPositions None pos c) ! j \<noteq> None" by metis
  with Suc c show ?thesis by simp
qed

lemma parents_linkAndPush:
  "map t_parentTrace (linkAndPush traces par m) = map t_parentTrace traces @ [t_parentTrace m]"
proof (rule nth_equalityI)
  show "length (map t_parentTrace (linkAndPush traces par m))
        = length (map t_parentTrace traces @ [t_parentTrace m])"
    by (simp add: length_linkAndPush)
next
  fix i
  assume "i < length (map t_parentTrace (linkAndPush traces par m))"
  then have "i < length traces \<or> i = length traces"
    by (auto simp: length_linkAndPush)
  then show "map t_parentTrace (linkAndPush traces par m) ! i
             = (map t_parentTrace traces @ [t_parentTrace m]) ! i"
  proof
    assume "i < length traces"
    then show ?thesis
      by (simp add: length_linkAndPush nth_append nth_linkAndPush_old(1))
  next
    assume "i = length traces"
    then show ?thesis
      by (simp add: length_linkAndPush nth_append nth_linkAndPush_new)
  qed
qed

text \<open>
  The flattener on any array: the parent it records for every new object is the position
  in the array of the object built for the parent call.
\<close>

lemma addTraces_parents:
  "addTraces c traces nid depth par = Inr (traces', n)
     \<Longrightarrow> map t_parentTrace traces'
           = map t_parentTrace traces @ parentPositions par (length traces) c
         \<and> length traces' = length traces + length (preorder c)"
  and addTraces_forEach_parents:
  "addTraces_forEach cs traces nid depth par = Inr (traces', n)
     \<Longrightarrow> map t_parentTrace traces'
           = map t_parentTrace traces @ parentPositionsList par (length traces) cs
         \<and> length traces' = length traces + length (preorderList cs)"
proof (induction c traces nid depth par and cs traces nid depth par arbitrary: traces' n and traces' n
       rule: addTraces_addTraces_forEach.induct)
  case (1 callResponse calls traces nextId depth parentTrace)
  let ?df = "case parentTrace of None \<Rightarrow> cr_from callResponse
              | Some p \<Rightarrow> if t_type (traces ! p) = DelegateCall then t_to (traces ! p)
                          else cr_from callResponse"
  from "1.prems" obtain m where
    m: "newTrace callResponse nextId depth (GethClient_convertType callResponse) ?df parentTrace = Inr m"
    by (auto split: sum.splits)
  have pm: "t_parentTrace m = parentTrace" using newTrace_fields[OF m] by simp
  have p1: "map t_parentTrace (linkAndPush traces parentTrace m)
            = map t_parentTrace traces @ [parentTrace]"
    by (simp add: parents_linkAndPush pm)
  show ?case
  proof (cases calls)
    case None
    with "1.prems" m have "traces' = linkAndPush traces parentTrace m" by simp
    with p1 None show ?thesis by (simp add: length_linkAndPush)
  next
    case (Some childCalls)
    with "1.prems" m have
      r: "addTraces_forEach childCalls (linkAndPush traces parentTrace m) (nextId + 1) (depth + 1)
            (Some (length traces)) = Inr (traces', n)" by simp
    from "1.IH"[OF m Some r]
    have "map t_parentTrace traces'
          = map t_parentTrace (linkAndPush traces parentTrace m)
            @ parentPositionsList (Some (length traces))
                (length (linkAndPush traces parentTrace m)) childCalls"
      and "length traces' = length (linkAndPush traces parentTrace m)
                            + length (preorderList childCalls)"
      by simp_all
    with p1 Some show ?thesis by (simp add: length_linkAndPush)
  qed
next
  case (2 traces nextId depth newTraceRef)
  then show ?case by simp
next
  case (3 childCall rest traces nextId depth newTraceRef)
  from "3.prems" obtain traces1 n1 where
    r1: "addTraces childCall traces nextId depth newTraceRef = Inr (traces1, n1)"
    and r2: "addTraces_forEach rest traces1 n1 depth newTraceRef = Inr (traces', n)"
    by (auto split: sum.splits)
  from "3.IH"(1)[OF r1]
  have a1: "map t_parentTrace traces1
            = map t_parentTrace traces @ parentPositions newTraceRef (length traces) childCall"
    and l1: "length traces1 = length traces + length (preorder childCall)"
    by simp_all
  from "3.IH"(2)[OF r1 refl r2]
  have a2: "map t_parentTrace traces'
            = map t_parentTrace traces1 @ parentPositionsList newTraceRef (length traces1) rest"
    and l2: "length traces' = length traces1 + length (preorderList rest)"
    by simp_all
  from a1 a2 l1 l2 show ?case by simp
qed

text \<open>
  C8. In the array that \<open>addTraces\<close> returns for a well-formed call tree there is one
  message for each call, in pre-order, with the type, the sender and the recipient of its
  call. The parent that a message records is the message of the call that holds it in the
  tree: the message at the root has none, and every other message has one, which comes
  before it, lists it among its children and is one level higher. The \<open>delegatedFrom\<close> of
  such a child message is the parent message's \<open>to\<close> when the parent message's type is
  DelegateCall, and the child's own \<open>from\<close> otherwise. The message at the root is
  attributed to its own \<open>from\<close>.
\<close>

theorem delegatedFrom_parent_rule:
  assumes "wellformed callResponse"
  shows "\<exists>traces. addTraces callResponse [] 0 0 None
                    = Inr (traces, length (preorder callResponse))
           \<and> length traces = length (preorder callResponse)
           \<and> map (\<lambda>m. (t_type m, t_from m, t_to m)) traces
               = map (\<lambda>c. (GethClient_convertType c, cr_from c, cr_to c)) (preorder callResponse)
           \<and> map t_parentTrace traces = parentPositions None 0 callResponse
           \<and> (\<forall>i<length traces.
                 case parentPositions None 0 callResponse ! i of
                   None \<Rightarrow> i = 0 \<and> t_delegatedFrom (traces ! i) = t_from (traces ! i)
                 | Some p \<Rightarrow>
                     0 < i \<and> p < i \<and> t_parentTrace (traces ! i) = Some p
                     \<and> i \<in> set (t_childTraces (traces ! p))
                     \<and> t_depth (traces ! i) = t_depth (traces ! p) + 1
                     \<and> t_delegatedFrom (traces ! i) =
                         (if t_type (traces ! p) = DelegateCall then t_to (traces ! p)
                          else t_from (traces ! i)))"
proof -
  from addTraces_top[OF assms] obtain traces where
    r: "addTraces callResponse [] 0 0 None = Inr (traces, length (preorder callResponse))"
    and c: "list_all2 copied (preorder callResponse) traces"
    by blast
  from c have l: "length traces = length (preorder callResponse)"
    by (simp add: list_all2_lengthD)
  have f: "map (\<lambda>m. (t_type m, t_from m, t_to m)) traces
           = map (\<lambda>c. (GethClient_convertType c, cr_from c, cr_to c)) (preorder callResponse)"
    using c by (rule list_all2_map_eq) (simp add: copied_def)
  have p: "map t_parentTrace traces = parentPositions None 0 callResponse"
    using addTraces_parents[OF r] by simp
  have k: "linked traces"
    using addTraces_linked[OF linked_Nil _ r] by simp
  have a: "\<forall>i<length traces.
             case parentPositions None 0 callResponse ! i of
               None \<Rightarrow> i = 0 \<and> t_delegatedFrom (traces ! i) = t_from (traces ! i)
             | Some p \<Rightarrow>
                 0 < i \<and> p < i \<and> t_parentTrace (traces ! i) = Some p
                 \<and> i \<in> set (t_childTraces (traces ! p))
                 \<and> t_depth (traces ! i) = t_depth (traces ! p) + 1
                 \<and> t_delegatedFrom (traces ! i) =
                     (if t_type (traces ! p) = DelegateCall then t_to (traces ! p)
                      else t_from (traces ! i))"
  proof (intro allI impI)
    fix i
    assume i: "i < length traces"
    then have e: "t_parentTrace (traces ! i) = parentPositions None 0 callResponse ! i"
      using nth_map[of i traces t_parentTrace] p by simp
    from i l have z: "(parentPositions None 0 callResponse ! i = None) = (i = 0)"
      by (simp add: parentPositions_root)
    from k i have h: "case t_parentTrace (traces ! i) of
          None \<Rightarrow> t_delegatedFrom (traces ! i) = t_from (traces ! i)
        | Some p \<Rightarrow>
            p < i \<and> i \<in> set (t_childTraces (traces ! p))
            \<and> t_depth (traces ! i) = t_depth (traces ! p) + 1
            \<and> t_delegatedFrom (traces ! i) =
                (if t_type (traces ! p) = DelegateCall then t_to (traces ! p)
                 else t_from (traces ! i))"
      unfolding linked_def by blast
    show "case parentPositions None 0 callResponse ! i of
               None \<Rightarrow> i = 0 \<and> t_delegatedFrom (traces ! i) = t_from (traces ! i)
             | Some p \<Rightarrow>
                 0 < i \<and> p < i \<and> t_parentTrace (traces ! i) = Some p
                 \<and> i \<in> set (t_childTraces (traces ! p))
                 \<and> t_depth (traces ! i) = t_depth (traces ! p) + 1
                 \<and> t_delegatedFrom (traces ! i) =
                     (if t_type (traces ! p) = DelegateCall then t_to (traces ! p)
                      else t_from (traces ! i))"
    proof (cases "parentPositions None 0 callResponse ! i")
      case None
      with h e z show ?thesis by simp
    next
      case (Some q)
      with h e z show ?thesis by simp
    qed
  qed
  from r l f p a show ?thesis by (intro exI[of _ traces] conjI)
qed

theorem delegatedFrom_parent_rule_witness:
  "wellformed chainExample
   \<and> parentPositions None 0 chainExample = [None, Some 0, Some 1]
   \<and> (\<exists>traces. addTraces chainExample [] 0 0 None = Inr (traces, 3)
         \<and> map t_parentTrace traces = [None, Some 0, Some 1]
         \<and> map t_type traces = [Call, DelegateCall, DelegateCall]
         \<and> t_delegatedFrom (traces ! 0) = t_from (traces ! 0)
         \<and> t_delegatedFrom (traces ! 1) = t_from (traces ! 1)
         \<and> t_delegatedFrom (traces ! 2) = t_to (traces ! 1))"
proof -
  have w: "wellformed chainExample"
    by (simp add: chainExample_def eval_defs)
  have n: "length (preorder chainExample) = 3"
    by (simp add: chainExample_def)
  have q: "parentPositions None 0 chainExample = [None, Some 0, Some 1]"
    by (simp add: chainExample_def)
  have g: "map (\<lambda>c. (GethClient_convertType c, cr_from c, cr_to c)) (preorder chainExample)
           = [(Call, Some ''0xRoot'', Some ''0xA''), (DelegateCall, Some ''0xA'', Some ''0xB''),
              (DelegateCall, Some ''0xB'', Some ''0xC'')]"
    by (simp add: chainExample_def GethClient_convertType_def)
  from delegatedFrom_parent_rule[OF w] obtain traces where
    r: "addTraces chainExample [] 0 0 None = Inr (traces, length (preorder chainExample))"
    and len: "length traces = length (preorder chainExample)"
    and f: "map (\<lambda>m. (t_type m, t_from m, t_to m)) traces
            = map (\<lambda>c. (GethClient_convertType c, cr_from c, cr_to c)) (preorder chainExample)"
    and p: "map t_parentTrace traces = parentPositions None 0 chainExample"
    and a: "\<forall>i<length traces.
                 case parentPositions None 0 chainExample ! i of
                   None \<Rightarrow> i = 0 \<and> t_delegatedFrom (traces ! i) = t_from (traces ! i)
                 | Some p \<Rightarrow>
                     0 < i \<and> p < i \<and> t_parentTrace (traces ! i) = Some p
                     \<and> i \<in> set (t_childTraces (traces ! p))
                     \<and> t_depth (traces ! i) = t_depth (traces ! p) + 1
                     \<and> t_delegatedFrom (traces ! i) =
                         (if t_type (traces ! p) = DelegateCall then t_to (traces ! p)
                          else t_from (traces ! i))"
    by (elim exE conjE) (rule that)
  from len n have l3: "length traces = 3" by simp
  from f g have "map fst (map (\<lambda>m. (t_type m, t_from m, t_to m)) traces)
                 = map fst [(Call, Some ''0xRoot'', Some ''0xA''),
                            (DelegateCall, Some ''0xA'', Some ''0xB''),
                            (DelegateCall, Some ''0xB'', Some ''0xC'')]"
    by simp
  then have ty: "map t_type traces = [Call, DelegateCall, DelegateCall]"
    by (simp add: comp_def)
  then have ty0: "t_type (traces ! 0) = Call" and ty1: "t_type (traces ! 1) = DelegateCall"
    using nth_map[of 0 traces t_type] nth_map[of 1 traces t_type] l3 by simp_all
  from a l3 q have d0: "t_delegatedFrom (traces ! 0) = t_from (traces ! 0)"
    by (auto dest!: spec[of _ 0])
  from a l3 q ty0 have d1: "t_delegatedFrom (traces ! 1) = t_from (traces ! 1)"
    by (auto dest!: spec[of _ 1])
  from a l3 q ty1 have d2: "t_delegatedFrom (traces ! 2) = t_to (traces ! 1)"
    by (auto dest!: spec[of _ 2])
  from r n have r': "addTraces chainExample [] 0 0 None = Inr (traces, 3)" by simp
  from p q have p': "map t_parentTrace traces = [None, Some 0, Some 1]" by simp
  from w q r' p' ty d0 d1 d2 show ?thesis
    by (intro conjI exI[of _ traces])
qed

section \<open>Properties of the revert-reason decoder\<close>

subsection \<open>Hexadecimal digits\<close>

lemma below_16:
  assumes "d < (16::nat)"
  shows "d \<in> {0, 1, 2, 3, 4, 5, 6, 7, 8, 9, 10, 11, 12, 13, 14, 15}"
  using assms unfolding insert_iff empty_iff by arith

lemma digitValue_hexDigitChar: "d < 16 \<Longrightarrow> digitValue (hexDigitChar d) = Some d"
  by (drule below_16) (auto simp: hexDigitChar_def digitValue_def)

lemma isDigit_hexDigitChar: "d < 16 \<Longrightarrow> isDigit 16 (hexDigitChar d)"
  by (simp add: isDigit_def digitValue_hexDigitChar)

lemma isDigit_16_plain:
  assumes "isDigit 16 c"
  shows "\<not> isWhiteSpace c" and "c \<noteq> CHR ''-''" and "c \<noteq> CHR ''+''"
    and "c \<noteq> CHR ''x''" and "c \<noteq> CHR ''X''"
  using assms
  by (auto simp: isDigit_def digitValue_def isWhiteSpace_def Let_def split: if_splits)

lemma digitsValue_snoc:
  "digitsValue radix (ds @ [c]) = digitsValue radix ds * radix + the (digitValue c)"
  by (simp add: digitsValue_def)

lemma hexDigits_numeral:
  "hexDigits (numeral k) v = hexDigits (pred_numeral k) (v div 16) @ [hexDigitChar (v mod 16)]"
  by (simp add: numeral_eq_Suc[of k])

lemma length_hexDigits: "length (hexDigits k v) = k"
  by (induction k arbitrary: v) simp_all

lemma isDigit_hexDigits: "list_all (isDigit 16) (hexDigits k v)"
  by (induction k arbitrary: v) (simp_all add: isDigit_hexDigitChar)

lemma digitsValue_hexDigits: "digitsValue 16 (hexDigits k v) = v mod 16 ^ k"
proof (induction k arbitrary: v)
  case 0
  then show ?case by (simp add: digitsValue_def)
next
  case (Suc k)
  have "digitsValue 16 (hexDigits (Suc k) v) = (v div 16) mod 16 ^ k * 16 + v mod 16"
    by (simp add: digitsValue_snoc Suc.IH digitValue_hexDigitChar)
  also have "\<dots> = v mod 16 ^ Suc k"
    by (simp add: mod_mult2_eq)
  finally show ?case .
qed

lemma parseInt_hex_digits:
  assumes "list_all (isDigit 16) w" and "w \<noteq> []"
  shows "parseInt w 16 = Some (int (digitsValue 16 w))"
proof -
  obtain a rest where w: "w = a # rest" using assms(2) by (cases w) auto
  with assms(1) have a: "isDigit 16 a" and r: "list_all (isDigit 16) rest" by simp_all
  have d: "dropWhile isWhiteSpace w = w"
    using w isDigit_16_plain(1)[OF a] by simp
  have p: "take 2 w \<noteq> ''0x''" "take 2 w \<noteq> ''0X''"
  proof -
    show "take 2 w \<noteq> ''0x''"
    proof (cases rest)
      case Nil
      with w show ?thesis by simp
    next
      case (Cons b rest')
      with r have "isDigit 16 b" by simp
      from isDigit_16_plain(4)[OF this] w Cons show ?thesis by simp
    qed
    show "take 2 w \<noteq> ''0X''"
    proof (cases rest)
      case Nil
      with w show ?thesis by simp
    next
      case (Cons b rest')
      with r have "isDigit 16 b" by simp
      from isDigit_16_plain(5)[OF this] w Cons show ?thesis by simp
    qed
  qed
  have t: "takeWhile (isDigit 16) w = w"
    using assms(1) by (simp add: list_all_iff)
  have s: "hd w \<noteq> CHR ''-''" "hd w \<noteq> CHR ''+''"
    using w isDigit_16_plain(2,3)[OF a] by simp_all
  show ?thesis
    unfolding parseInt_def d Let_def
    using s p assms(2) by (simp add: t)
qed

lemma parseInt_abiWord: "n < 2 ^ 256 \<Longrightarrow> parseInt (abiWord n) 16 = Some (int n)"
proof -
  assume n: "n < 2 ^ 256"
  have "abiWord n \<noteq> []"
    using length_hexDigits[of 64 n] by (auto simp: abiWord_def)
  then have "parseInt (abiWord n) 16 = Some (int (digitsValue 16 (abiWord n)))"
    using isDigit_hexDigits[of 64 n] by (intro parseInt_hex_digits) (simp_all add: abiWord_def)
  also have "digitsValue 16 (abiWord n) = n mod 16 ^ 64"
    by (simp add: abiWord_def digitsValue_hexDigits)
  also have "(16::nat) ^ 64 = 2 ^ 256"
    by simp
  finally show ?thesis using n by simp
qed

subsection \<open>Bytes in hexadecimal\<close>

lemma length_hexBytes: "length (hexBytes bs) = 2 * length bs"
  by (induction bs) (simp_all add: hexBytes_def)

lemma isDigit_hexBytes: "list_all (\<lambda>b. b < 256) bs \<Longrightarrow> list_all (isDigit 16) (hexBytes bs)"
  by (induction bs) (simp_all add: hexBytes_def isDigit_hexDigitChar less_mult_imp_div_less)

lemma hexPairs_hexBytes: "list_all (\<lambda>b. b < 256) bs \<Longrightarrow> hexPairs (hexBytes bs) = bs"
proof (induction bs)
  case Nil
  then show ?case by (simp add: hexBytes_def)
next
  case (Cons b bs)
  then have b: "b div 16 < 16" "b mod 16 < 16" by (simp_all add: less_mult_imp_div_less)
  from Cons have "hexPairs (hexBytes bs) = bs" by simp
  then show ?case
    using b by (simp add: hexBytes_def digitValue_hexDigitChar)
qed

lemma arrayify_hexBytes:
  assumes "list_all (\<lambda>b. b < 256) bs"
  shows "arrayify (''0x'' @ hexBytes bs) = Inr bs"
  using assms isDigit_hexBytes[OF assms]
  by (simp add: arrayify_def isHexString_def length_hexBytes hexPairs_hexBytes)

subsection \<open>Slices\<close>

lemma slice_middle:
  "slice (a @ b @ c) (int (length a)) (int (length a) + int (length b)) = b"
  by (simp add: slice_def Let_def)

subsection \<open>UTF-8\<close>

declare getUtf8CodePoints.simps(2) [simp del]

lemma utf8Char_bytes: "scalarValue c \<Longrightarrow> list_all (\<lambda>b. b < 256) (utf8Char c)"
  by (auto simp: utf8Char_def scalarValue_def)

lemma utf8Bytes_bytes: "list_all scalarValue cps \<Longrightarrow> list_all (\<lambda>b. b < 256) (utf8Bytes cps)"
  by (induction cps) (simp_all add: utf8Bytes_def utf8Char_bytes)

lemma decode_cons:
  "(case getUtf8CodePoints rest of Inl e \<Rightarrow> Inl e | Inr result \<Rightarrow> Inr (c # result))
   = map_sum id ((#) c) (getUtf8CodePoints rest)"
  by (cases "getUtf8CodePoints rest") simp_all

lemma decode_1:
  assumes "c < 0x80"
  shows "getUtf8CodePoints (c # rest) = map_sum id ((#) c) (getUtf8CodePoints rest)"
  using assms by (simp add: decode_cons getUtf8CodePoints.simps(2))

lemma lead_byte:
  fixes p k m :: nat
  assumes "p < m" and "n = k * m"
  shows "(n + p) div m = k" and "(n + p) mod m = p"
  using assms by simp_all

lemma cont_byte:
  fixes r :: nat
  assumes "r < 64"
  shows "(128 + r) div 64 = 2" and "(128 + r) mod 64 = r"
  using lead_byte[of r 64 128 2] assms by simp_all

lemma decode_2:
  assumes "0x80 \<le> c" and "c < 0x800"
  shows "getUtf8CodePoints ((0xc0 + c div 64) # (0x80 + c mod 64) # rest)
         = map_sum id ((#) c) (getUtf8CodePoints rest)"
proof -
  define q where "q = c div 64"
  define r where "r = c mod 64"
  have c: "q * 64 + r = c" by (simp add: q_def r_def)
  have q: "q < 32"
    unfolding q_def using assms(2) less_mult_imp_div_less[of c 32 64] by simp
  have r: "r < 64" by (simp add: r_def)
  have f: "(192 + q) div 128 = 1" "(192 + q) div 32 = 6" "(192 + q) mod 64 = q"
    using lead_byte(1)[of "64 + q" 128 128 1] lead_byte(1)[of q 32 192 6]
      lead_byte(2)[of q 64 192 3] q
    by simp_all
  have v: "\<not> 1114111 < c" "(55296 \<le> c \<and> c \<le> 57343) = False" "\<not> c \<le> 127"
    using assms by simp_all
  show ?thesis
    unfolding q_def[symmetric] r_def[symmetric]
    by (simp add: f cont_byte[OF r] c v decode_cons Let_def getUtf8CodePoints.simps(2))
qed

lemma decode_3:
  assumes "0x800 \<le> c" and "c < 0x10000" and "\<not> (0xd800 \<le> c \<and> c \<le> 0xdfff)"
  shows "getUtf8CodePoints
           ((0xe0 + c div 4096) # (0x80 + c div 64 mod 64) # (0x80 + c mod 64) # rest)
         = map_sum id ((#) c) (getUtf8CodePoints rest)"
proof -
  define p where "p = c div 4096"
  define q where "q = c div 64 mod 64"
  define r where "r = c mod 64"
  have "c div 64 = p * 64 + q"
    unfolding p_def q_def using div_mult2_eq[of c 64 64] by simp
  then have c: "4096 * p + q * 64 + r = c"
    unfolding r_def using div_mult_mod_eq[of c 64] by simp
  have p: "p < 16"
    unfolding p_def using assms(2) less_mult_imp_div_less[of c 16 4096] by simp
  have q: "q < 64" by (simp add: q_def)
  have r: "r < 64" by (simp add: r_def)
  have f: "(224 + p) div 128 = 1" "(224 + p) div 32 = 7" "(224 + p) div 16 = 14"
    "(224 + p) mod 32 = p"
    using lead_byte(1)[of "96 + p" 128 128 1] lead_byte(1)[of p 32 224 7]
      lead_byte(1)[of p 16 224 14] lead_byte(2)[of p 32 224 7] p
    by simp_all
  have v: "\<not> 1114111 < c" "(55296 \<le> c \<and> c \<le> 57343) = False" "\<not> c \<le> 2047"
    using assms by simp_all
  show ?thesis
    unfolding p_def[symmetric] q_def[symmetric] r_def[symmetric]
    by (simp add: f cont_byte[OF q] cont_byte[OF r] c v decode_cons Let_def
        getUtf8CodePoints.simps(2))
qed

lemma decode_4:
  assumes "0x10000 \<le> c" and "c < 0x110000"
  shows "getUtf8CodePoints
           ((0xf0 + c div 262144) # (0x80 + c div 4096 mod 64) # (0x80 + c div 64 mod 64)
            # (0x80 + c mod 64) # rest)
         = map_sum id ((#) c) (getUtf8CodePoints rest)"
proof -
  define o' where "o' = c div 262144"
  define p where "p = c div 4096 mod 64"
  define q where "q = c div 64 mod 64"
  define r where "r = c mod 64"
  have "c div 4096 = o' * 64 + p"
    unfolding o'_def p_def using div_mult2_eq[of c 4096 64] by simp
  moreover have "c div 64 = c div 4096 * 64 + q"
    unfolding q_def using div_mult2_eq[of c 64 64] by simp
  ultimately have c: "262144 * o' + 4096 * p + q * 64 + r = c"
    unfolding r_def using div_mult_mod_eq[of c 64] by simp
  have o': "o' < 5"
    unfolding o'_def using assms(2) less_mult_imp_div_less[of c 5 262144] by simp
  have p: "p < 64" by (simp add: p_def)
  have q: "q < 64" by (simp add: q_def)
  have r: "r < 64" by (simp add: r_def)
  have f: "(240 + o') div 128 = 1" "(240 + o') div 32 = 7" "(240 + o') div 16 = 15"
    "(240 + o') div 8 = 30" "(240 + o') mod 16 = o'"
    using lead_byte(1)[of "112 + o'" 128 128 1] lead_byte(1)[of "16 + o'" 32 224 7]
      lead_byte(1)[of o' 16 240 15] lead_byte(1)[of o' 8 240 30]
      lead_byte(2)[of o' 16 240 15] o'
    by simp_all
  have v: "\<not> 1114111 < c" "(55296 \<le> c \<and> c \<le> 57343) = False" "\<not> c \<le> 65535"
    using assms by simp_all
  show ?thesis
    unfolding o'_def[symmetric] p_def[symmetric] q_def[symmetric] r_def[symmetric]
    by (simp add: f cont_byte[OF p] cont_byte[OF q] cont_byte[OF r] c v decode_cons Let_def
        getUtf8CodePoints.simps(2))
qed

lemma decode_utf8Char:
  assumes "scalarValue c"
  shows "getUtf8CodePoints (utf8Char c @ rest) = map_sum id ((#) c) (getUtf8CodePoints rest)"
proof -
  consider "c < 0x80" | "0x80 \<le> c" "c < 0x800" | "0x800 \<le> c" "c < 0x10000"
    | "0x10000 \<le> c" by linarith
  then show ?thesis
  proof cases
    case 1
    then have "utf8Char c @ rest = c # rest" by (simp add: utf8Char_def)
    with decode_1[OF 1] show ?thesis by simp
  next
    case 2
    then have "utf8Char c @ rest = (0xc0 + c div 64) # (0x80 + c mod 64) # rest"
      by (simp add: utf8Char_def)
    with decode_2[OF 2] show ?thesis by simp
  next
    case 3
    then have "utf8Char c @ rest
               = (0xe0 + c div 4096) # (0x80 + c div 64 mod 64) # (0x80 + c mod 64) # rest"
      by (simp add: utf8Char_def)
    moreover from assms have "\<not> (0xd800 \<le> c \<and> c \<le> 0xdfff)"
      by (simp add: scalarValue_def)
    ultimately show ?thesis using decode_3[OF 3] by simp
  next
    case 4
    then have "utf8Char c @ rest
               = (0xf0 + c div 262144) # (0x80 + c div 4096 mod 64) # (0x80 + c div 64 mod 64)
                 # (0x80 + c mod 64) # rest"
      by (simp add: utf8Char_def)
    moreover from assms have "c < 0x110000" by (simp add: scalarValue_def)
    ultimately show ?thesis using decode_4[OF 4] by simp
  qed
qed

lemma decode_utf8Bytes:
  "list_all scalarValue cps \<Longrightarrow> getUtf8CodePoints (utf8Bytes cps) = Inr cps"
proof (induction cps)
  case Nil
  then show ?case by (simp add: utf8Bytes_def)
next
  case (Cons c cps)
  then have "scalarValue c" and "getUtf8CodePoints (utf8Bytes cps) = Inr cps" by simp_all
  then show ?case
    using decode_utf8Char[of c "utf8Bytes cps"] by (simp add: utf8Bytes_def)
qed

subsection \<open>The decoder on an encoded reason\<close>

lemma replicate_numeral: "replicate (numeral k) x = x # replicate (pred_numeral k) x"
  by (simp add: numeral_eq_Suc[of k])

lemma length_abiWord: "length (abiWord v) = 64"
  by (simp add: abiWord_def length_hexDigits)

lemma parseReasonCode_layout:
  assumes pre: "length pre = 72" and n: "n = length bytes" and small: "n < 2 ^ 53"
    and bytes: "list_all (\<lambda>b. b < 256) bytes"
  shows "parseReasonCode (pre @ abiWord n @ hexBytes bytes @ rest) = getUtf8CodePoints bytes"
proof -
  let ?m = "pre @ abiWord n @ hexBytes bytes @ rest"
  have "slice ?m (int (length pre)) (int (length pre) + int (length (abiWord n))) = abiWord n"
    by (rule slice_middle)
  then have w: "slice ?m (8 + 64) (8 + 128) = abiWord n"
    by (simp add: pre length_abiWord)
  have "n < 2 ^ 256"
    using small by (rule less_trans) simp
  then have l: "parseInt (abiWord n) 16 = Some (int n)"
    by (rule parseInt_abiWord)
  have "slice ((pre @ abiWord n) @ hexBytes bytes @ rest) (int (length (pre @ abiWord n)))
          (int (length (pre @ abiWord n)) + int (length (hexBytes bytes))) = hexBytes bytes"
    by (rule slice_middle)
  then have d: "slice ?m (8 + 128) (8 + 128 + int n * 2) = hexBytes bytes"
    by (simp add: pre length_abiWord length_hexBytes n mult.commute)
  show ?thesis
    unfolding parseReasonCode_def Let_def w l
    by (simp only: option.case d toUtf8String_def arrayify_hexBytes[OF bytes] sum.case)
qed

lemma length_selector_offset: "length (''08c379a0'' @ abiWord 32) = 72"
  by (simp add: length_abiWord)

text \<open>
  C3. Let a string of code points that UTF-8 can encode be ABI-encoded as the payload of
  \<open>Error(string)\<close>: selector, offset word, length word, the UTF-8 bytes and zeros up to a
  32-byte boundary, in hexadecimal without the prefix \<open>0x\<close> (which the caller of
  \<open>parseReasonCode\<close> cuts off). Then \<open>parseReasonCode\<close> returns exactly that string. The
  length is that of a JavaScript string, below \<open>2 ^ 53\<close>.
\<close>

theorem parseReasonCode_roundtrip:
  assumes "list_all scalarValue reason" and "length (utf8Bytes reason) < 2 ^ 53"
  shows "parseReasonCode (encodeErrorString reason) = Inr reason"
proof -
  let ?bytes = "utf8Bytes reason"
  let ?n = "length ?bytes"
  let ?pad = "replicate (2 * ((32 - ?n mod 32) mod 32)) CHR ''0''"
  have e: "encodeErrorString reason
           = (''08c379a0'' @ abiWord 32) @ abiWord ?n @ hexBytes ?bytes @ ?pad"
    by (simp add: encodeErrorString_def Let_def)
  have "parseReasonCode ((''08c379a0'' @ abiWord 32) @ abiWord ?n @ hexBytes ?bytes @ ?pad)
        = getUtf8CodePoints ?bytes"
    using length_selector_offset refl assms(2) utf8Bytes_bytes[OF assms(1)]
    by (rule parseReasonCode_layout)
  with e show ?thesis
    by (simp only: decode_utf8Bytes[OF assms(1)])
qed

theorem parseReasonCode_roundtrip_witness:
  "list_all scalarValue (codePoints ''insufficient balance'')
   \<and> length (utf8Bytes (codePoints ''insufficient balance'')) < 2 ^ 53
   \<and> encodeErrorString (codePoints ''insufficient balance'')
       = ''08c379a0''
         @ ''0000000000000000000000000000000000000000000000000000000000000020''
         @ ''0000000000000000000000000000000000000000000000000000000000000014''
         @ ''696e73756666696369656e742062616c616e6365000000000000000000000000''
   \<and> parseReasonCode
        (''08c379a0''
         @ ''0000000000000000000000000000000000000000000000000000000000000020''
         @ ''0000000000000000000000000000000000000000000000000000000000000014''
         @ ''696e73756666696369656e742062616c616e6365000000000000000000000000'')
       = Inr (codePoints ''insufficient balance'')"
proof -
  have s: "list_all scalarValue (codePoints ''insufficient balance'')"
    by (simp add: codePoints_def scalarValue_def)
  have b: "utf8Bytes (codePoints ''insufficient balance'')
           = [105, 110, 115, 117, 102, 102, 105, 99, 105, 101, 110, 116, 32, 98, 97, 108, 97,
              110, 99, 101]"
    by (simp add: codePoints_def utf8Bytes_def utf8Char_def)
  then have l: "length (utf8Bytes (codePoints ''insufficient balance'')) < 2 ^ 53"
    by simp
  have e: "encodeErrorString (codePoints ''insufficient balance'')
       = ''08c379a0''
         @ ''0000000000000000000000000000000000000000000000000000000000000020''
         @ ''0000000000000000000000000000000000000000000000000000000000000014''
         @ ''696e73756666696369656e742062616c616e6365000000000000000000000000''"
    unfolding encodeErrorString_def Let_def b
    by (simp add: abiWord_def hexBytes_def hexDigits_numeral hexDigitChar_def
        replicate_numeral)
  from parseReasonCode_roundtrip[OF s l] e s l show ?thesis
    by (simp only: simp_thms)
qed

subsection \<open>What the decoder accepts is UTF-8\<close>

lemma decoded_1:
  assumes "c div 128 = 0" and "getUtf8CodePoints (c # rest) = Inr cps"
  shows "\<exists>r. getUtf8CodePoints rest = Inr r \<and> cps = c # r \<and> utf8Char c = [c] \<and> scalarValue c"
proof -
  have c: "c < 128" using assms(1) by (simp add: div_eq_0_iff)
  from assms obtain r where "getUtf8CodePoints rest = Inr r" "cps = c # r"
    by (auto simp: getUtf8CodePoints.simps(2) split: sum.splits)
  with c show ?thesis by (simp add: utf8Char_def scalarValue_def)
qed

lemma lead_split:
  fixes c k m :: nat
  assumes "c div m = k"
  shows "c = k * m + c mod m"
  using assms div_mult_mod_eq[of c m] by simp

lemma decoded_2:
  assumes "c div 32 = 6" and "getUtf8CodePoints (c # b1 # rest) = Inr cps"
  shows "\<exists>r u. getUtf8CodePoints rest = Inr r \<and> cps = u # r \<and> utf8Char u = [c, b1]
               \<and> scalarValue u"
proof -
  define p where "p = c mod 32"
  have p: "p < 32" by (simp add: p_def)
  have c: "c = 192 + p" using lead_split[OF assms(1)] by (simp add: p_def)
  have l: "c div 128 = 1" "c mod 64 = p"
    unfolding c using lead_byte(1)[of "64 + p" 128 128 1] lead_byte(2)[of p 64 192 3] p
    by simp_all
  have b: "b1 div 64 = 2"
    using assms by (auto simp: getUtf8CodePoints.simps(2) l split: if_splits)
  define q where "q = b1 mod 64"
  have q: "q < 64" by (simp add: q_def)
  have b1: "b1 = 128 + q" using lead_split[OF b] by (simp add: q_def)
  define u where "u = p * 64 + b1 mod 64"
  have "getUtf8CodePoints (c # b1 # rest)
        = (if 1114111 < u then Inl (Error ''out of UTF-8 range'')
           else if 55296 \<le> u \<and> u \<le> 57343 then Inl (Error ''UTF-16 surrogate'')
           else if u \<le> 127 then Inl (Error ''overlong representation'')
           else map_sum id ((#) u) (getUtf8CodePoints rest))"
    unfolding u_def
    by (simp add: getUtf8CodePoints.simps(2) l assms(1) b Let_def decode_cons)
  with assms(2) have o: "127 < u" and m: "map_sum id ((#) u) (getUtf8CodePoints rest) = Inr cps"
    by (simp_all split: if_splits)
  from m obtain r where r: "getUtf8CodePoints rest = Inr r" "cps = u # r"
    by (cases "getUtf8CodePoints rest") auto
  have uq: "u = p * 64 + q" by (simp add: u_def q_def)
  have up: "u < 2048" using p q by (simp add: uq)
  have "u div 64 = p" "u mod 64 = q"
    unfolding uq using q by simp_all
  then have "utf8Char u = [c, b1]"
    using o up by (simp add: utf8Char_def c b1)
  moreover have "scalarValue u" using up by (simp add: scalarValue_def)
  ultimately show ?thesis using r by blast
qed

lemma decoded_3:
  assumes "c div 16 = 14" and "getUtf8CodePoints (c # b1 # b2 # rest) = Inr cps"
  shows "\<exists>r u. getUtf8CodePoints rest = Inr r \<and> cps = u # r \<and> utf8Char u = [c, b1, b2]
               \<and> scalarValue u"
proof -
  define p where "p = c mod 16"
  have p: "p < 16" by (simp add: p_def)
  have c: "c = 224 + p" using lead_split[OF assms(1)] by (simp add: p_def)
  have l: "c div 128 = 1" "c div 32 = 7" "c mod 32 = p"
    unfolding c using lead_byte(1)[of "96 + p" 128 128 1] lead_byte(1)[of p 32 224 7]
      lead_byte(2)[of p 32 224 7] p
    by simp_all
  have b: "b1 div 64 = 2 \<and> b2 div 64 = 2"
    using assms by (auto simp: getUtf8CodePoints.simps(2) l split: if_splits)
  define q where "q = b1 mod 64"
  define r' where "r' = b2 mod 64"
  have q: "q < 64" and r': "r' < 64" by (simp_all add: q_def r'_def)
  have b1: "b1 = 128 + q" using lead_split[of b1 64 2] b by (simp add: q_def)
  have b2: "b2 = 128 + r'" using lead_split[of b2 64 2] b by (simp add: r'_def)
  define u where "u = (p * 64 + b1 mod 64) * 64 + b2 mod 64"
  have "getUtf8CodePoints (c # b1 # b2 # rest)
        = (if 1114111 < u then Inl (Error ''out of UTF-8 range'')
           else if 55296 \<le> u \<and> u \<le> 57343 then Inl (Error ''UTF-16 surrogate'')
           else if u \<le> 2047 then Inl (Error ''overlong representation'')
           else map_sum id ((#) u) (getUtf8CodePoints rest))"
    unfolding u_def
    by (simp add: getUtf8CodePoints.simps(2) l assms(1) b Let_def decode_cons)
  with assms(2) have o: "2047 < u" and s: "\<not> (55296 \<le> u \<and> u \<le> 57343)"
    and m: "map_sum id ((#) u) (getUtf8CodePoints rest) = Inr cps"
    by (simp_all split: if_splits)
  from m obtain r where r: "getUtf8CodePoints rest = Inr r" "cps = u # r"
    by (cases "getUtf8CodePoints rest") auto
  have uq: "u = (p * 64 + q) * 64 + r'" by (simp add: u_def q_def r'_def)
  have low: "q * 64 + r' < 4096" using q r' by simp
  have up: "u < 65536" using p low by (simp add: uq)
  have d1: "u div 4096 = p"
    using lead_byte(1)[of "q * 64 + r'" 4096 "p * 4096" p] low by (simp add: uq)
  have d2: "u div 64 = p * 64 + q"
    using lead_byte(1)[of r' 64 "(p * 64 + q) * 64" "p * 64 + q"] r' by (simp add: uq)
  have d3: "(p * 64 + q) mod 64 = q"
    using lead_byte(2)[of q 64 "p * 64" p] q by simp
  have d4: "u mod 64 = r'"
    using lead_byte(2)[of r' 64 "(p * 64 + q) * 64" "p * 64 + q"] r' by (simp add: uq)
  have "utf8Char u = [c, b1, b2]"
    using o up q by (simp add: utf8Char_def d1 d2 d4 c b1 b2)
  moreover have "scalarValue u" using up s by (simp add: scalarValue_def)
  ultimately show ?thesis using r by blast
qed

lemma decoded_4:
  assumes "c div 8 = 30" and "getUtf8CodePoints (c # b1 # b2 # b3 # rest) = Inr cps"
  shows "\<exists>r u. getUtf8CodePoints rest = Inr r \<and> cps = u # r \<and> utf8Char u = [c, b1, b2, b3]
               \<and> scalarValue u"
proof -
  define p where "p = c mod 8"
  have p: "p < 8" by (simp add: p_def)
  have c: "c = 240 + p" using lead_split[OF assms(1)] by (simp add: p_def)
  have l: "c div 128 = 1" "c div 32 = 7" "c div 16 = 15" "c mod 16 = p"
    unfolding c using lead_byte(1)[of "112 + p" 128 128 1] lead_byte(1)[of "16 + p" 32 224 7]
      lead_byte(1)[of p 16 240 15] lead_byte(2)[of p 16 240 15] p
    by simp_all
  have b: "b1 div 64 = 2 \<and> b2 div 64 = 2 \<and> b3 div 64 = 2"
    using assms by (auto simp: getUtf8CodePoints.simps(2) l split: if_splits)
  define q where "q = b1 mod 64"
  define r' where "r' = b2 mod 64"
  define s' where "s' = b3 mod 64"
  have q: "q < 64" and r': "r' < 64" and s': "s' < 64" by (simp_all add: q_def r'_def s'_def)
  have b1: "b1 = 128 + q" using lead_split[of b1 64 2] b by (simp add: q_def)
  have b2: "b2 = 128 + r'" using lead_split[of b2 64 2] b by (simp add: r'_def)
  have b3: "b3 = 128 + s'" using lead_split[of b3 64 2] b by (simp add: s'_def)
  define u where "u = ((p * 64 + b1 mod 64) * 64 + b2 mod 64) * 64 + b3 mod 64"
  have "getUtf8CodePoints (c # b1 # b2 # b3 # rest)
        = (if 1114111 < u then Inl (Error ''out of UTF-8 range'')
           else if 55296 \<le> u \<and> u \<le> 57343 then Inl (Error ''UTF-16 surrogate'')
           else if u \<le> 65535 then Inl (Error ''overlong representation'')
           else map_sum id ((#) u) (getUtf8CodePoints rest))"
    unfolding u_def
    by (simp add: getUtf8CodePoints.simps(2) l assms(1) b Let_def decode_cons)
  with assms(2) have o: "65535 < u" and t: "u \<le> 1114111"
    and m: "map_sum id ((#) u) (getUtf8CodePoints rest) = Inr cps"
    by (simp_all split: if_splits)
  from m obtain r where r: "getUtf8CodePoints rest = Inr r" "cps = u # r"
    by (cases "getUtf8CodePoints rest") auto
  have uq: "u = ((p * 64 + q) * 64 + r') * 64 + s'" by (simp add: u_def q_def r'_def s'_def)
  have low2: "r' * 64 + s' < 4096" using r' s' by simp
  have low3: "(q * 64 + r') * 64 + s' < 262144" using q r' s' by simp
  have d1: "u div 262144 = p"
    using lead_byte(1)[of "(q * 64 + r') * 64 + s'" 262144 "p * 262144" p] low3
    by (simp add: uq)
  have d2: "u div 4096 = p * 64 + q"
    using lead_byte(1)[of "r' * 64 + s'" 4096 "(p * 64 + q) * 4096" "p * 64 + q"] low2
    by (simp add: uq)
  have d3: "(p * 64 + q) mod 64 = q"
    using lead_byte(2)[of q 64 "p * 64" p] q by simp
  have d4: "u div 64 = (p * 64 + q) * 64 + r'"
    using lead_byte(1)[of s' 64 "((p * 64 + q) * 64 + r') * 64" "(p * 64 + q) * 64 + r'"] s'
    by (simp add: uq)
  have d5: "((p * 64 + q) * 64 + r') mod 64 = r'"
    using lead_byte(2)[of r' 64 "(p * 64 + q) * 64" "p * 64 + q"] r' by simp
  have d6: "u mod 64 = s'"
    using lead_byte(2)[of s' 64 "((p * 64 + q) * 64 + r') * 64" "(p * 64 + q) * 64 + r'"] s'
    by (simp add: uq)
  have d5': "(4096 * p + q * 64 + r') mod 64 = r'"
    using lead_byte(2)[of r' 64 "4096 * p + q * 64" "64 * p + q"] r' by simp
  have "utf8Char u = [c, b1, b2, b3]"
    using o t q by (simp add: utf8Char_def d1 d2 d4 d5' d6 c b1 b2 b3)
  moreover have "scalarValue u" using o t by (simp add: scalarValue_def)
  ultimately show ?thesis using r by blast
qed

lemma decoded_lead:
  assumes "getUtf8CodePoints (c # bs) = Inr cps" and "c div 128 \<noteq> 0"
  shows "c div 32 = 6 \<or> c div 16 = 14 \<or> c div 8 = 30"
  using assms by - (rule ccontr, simp add: getUtf8CodePoints.simps(2))

lemma decoded_length_2:
  assumes "c div 32 = 6" and "getUtf8CodePoints (c # bs) = Inr cps"
  shows "\<exists>b1 rest. bs = b1 # rest"
proof (cases bs)
  case Nil
  have "c div 128 = 1"
    using lead_split[OF assms(1)] lead_byte(1)[of "64 + c mod 32" 128 128 1] by simp
  with Nil assms show ?thesis by (simp add: getUtf8CodePoints.simps(2))
qed simp

lemma decoded_length_3:
  assumes "c div 16 = 14" and "getUtf8CodePoints (c # bs) = Inr cps"
  shows "\<exists>b1 b2 rest. bs = b1 # b2 # rest"
proof -
  have n: "c div 32 \<noteq> 6" "c div 128 = 1"
    using lead_split[OF assms(1)] lead_byte(1)[of "c mod 16" 32 224 7]
      lead_byte(1)[of "96 + c mod 16" 128 128 1] by simp_all
  have "\<not> length bs < 2"
    using assms n by - (rule notI, simp add: getUtf8CodePoints.simps(2))
  then show ?thesis
    by (cases bs; cases "tl bs") auto
qed

lemma decoded_length_4:
  assumes "c div 8 = 30" and "getUtf8CodePoints (c # bs) = Inr cps"
  shows "\<exists>b1 b2 b3 rest. bs = b1 # b2 # b3 # rest"
proof -
  have n: "c div 32 \<noteq> 6" "c div 16 \<noteq> 14" "c div 128 = 1"
    using lead_split[OF assms(1)] lead_byte(1)[of "16 + c mod 8" 32 224 7]
      lead_byte(1)[of "c mod 8" 16 240 15] lead_byte(1)[of "112 + c mod 8" 128 128 1]
    by simp_all
  have "\<not> length bs < 3"
    using assms n by - (rule notI, simp add: getUtf8CodePoints.simps(2))
  then show ?thesis
    by (cases bs; cases "tl bs"; cases "tl (tl bs)") auto
qed

lemma getUtf8CodePoints_sound:
  "getUtf8CodePoints bytes = Inr cps \<Longrightarrow> list_all scalarValue cps \<and> utf8Bytes cps = bytes"
proof (induction bytes arbitrary: cps rule: length_induct)
  case (1 bytes)
  note IH = "1.IH"[rule_format]
  show ?case
  proof (cases bytes)
    case Nil
    with "1.prems" show ?thesis by (simp add: utf8Bytes_def)
  next
    case (Cons c bs)
    have step: "list_all scalarValue cps \<and> utf8Bytes cps = bytes"
      if "getUtf8CodePoints rest = Inr r" "cps = u # r" "utf8Char u @ rest = bytes"
        "scalarValue u" "length rest < length bytes" for rest r u
    proof -
      from IH[OF that(5) that(1)] have "list_all scalarValue r" "utf8Bytes r = rest" by simp_all
      with that show ?thesis by (simp add: utf8Bytes_def)
    qed
    show ?thesis
    proof (cases "c div 128 = 0")
      case True
      from decoded_1[OF True "1.prems"[unfolded Cons]]
      obtain r where "getUtf8CodePoints bs = Inr r" "cps = c # r" "utf8Char c = [c]"
        "scalarValue c" by blast
      then show ?thesis using Cons by (intro step[of bs r c]) simp_all
    next
      case False
      from decoded_lead[OF "1.prems"[unfolded Cons] False]
      consider "c div 32 = 6" | "c div 16 = 14" | "c div 8 = 30" by blast
      then show ?thesis
      proof cases
        case 1
        from decoded_length_2[OF 1 "1.prems"[unfolded Cons]]
        obtain b1 rest where bs: "bs = b1 # rest" by blast
        from decoded_2[OF 1 "1.prems"[unfolded Cons bs]]
        obtain r u where "getUtf8CodePoints rest = Inr r" "cps = u # r" "utf8Char u = [c, b1]"
          "scalarValue u" by blast
        then show ?thesis using Cons bs by (intro step[of rest r u]) simp_all
      next
        case 2
        from decoded_length_3[OF 2 "1.prems"[unfolded Cons]]
        obtain b1 b2 rest where bs: "bs = b1 # b2 # rest" by blast
        from decoded_3[OF 2 "1.prems"[unfolded Cons bs]]
        obtain r u where "getUtf8CodePoints rest = Inr r" "cps = u # r"
          "utf8Char u = [c, b1, b2]" "scalarValue u" by blast
        then show ?thesis using Cons bs by (intro step[of rest r u]) simp_all
      next
        case 3
        from decoded_length_4[OF 3 "1.prems"[unfolded Cons]]
        obtain b1 b2 b3 rest where bs: "bs = b1 # b2 # b3 # rest" by blast
        from decoded_4[OF 3 "1.prems"[unfolded Cons bs]]
        obtain r u where "getUtf8CodePoints rest = Inr r" "cps = u # r"
          "utf8Char u = [c, b1, b2, b3]" "scalarValue u" by blast
        then show ?thesis using Cons bs by (intro step[of rest r u]) simp_all
      qed
    qed
  qed
qed

lemma getUtf8CodePoints_accepts_iff:
  "(\<exists>cps. getUtf8CodePoints bytes = Inr cps)
   \<longleftrightarrow> (\<exists>cps. list_all scalarValue cps \<and> utf8Bytes cps = bytes)"
  using getUtf8CodePoints_sound decode_utf8Bytes by metis

subsection \<open>Malformed payloads\<close>

lemma parseReasonCode_short:
  assumes "length messageData \<le> 72"
  shows "parseReasonCode messageData = Inr []"
proof -
  have w: "slice messageData (8 + 64) (8 + 128) = []"
    using assms by (simp add: slice_def Let_def)
  have l: "parseInt [] 16 = None"
    by (simp add: parseInt_def)
  have d: "slice messageData (8 + 128) 0 = []"
    by (simp add: slice_def Let_def)
  have t: "toUtf8String (''0x'' @ []) = Inr []"
    by (simp add: toUtf8String_def arrayify_def isHexString_def)
  show ?thesis
    unfolding parseReasonCode_def Let_def w l
    by (simp only: option.case d t)
qed

lemma not_utf8_rejected:
  assumes "\<forall>reason. list_all scalarValue reason \<longrightarrow> utf8Bytes reason \<noteq> bytes"
  shows "isl (getUtf8CodePoints bytes)"
proof (cases "getUtf8CodePoints bytes")
  case (Inl e)
  then show ?thesis by simp
next
  case (Inr cps)
  from getUtf8CodePoints_sound[OF Inr] assms show ?thesis by blast
qed

text \<open>
  C5, as amended. A payload of at most 72 hexadecimal digits, too short to hold any of the
  length word, is not rejected: \<open>parseReasonCode\<close> returns the empty string. A payload whose
  length word is followed by the bytes it announces is rejected when those bytes are not the
  UTF-8 encoding of any string: \<open>parseReasonCode\<close> throws the error of the conversion
  library.
\<close>

theorem parseReasonCode_malformed:
  "(length messageData \<le> 72 \<longrightarrow> parseReasonCode messageData = Inr [])
   \<and> (length pre = 72 \<and> length bytes < 2 ^ 53 \<and> list_all (\<lambda>b. b < 256) bytes
        \<and> (\<forall>reason. list_all scalarValue reason \<longrightarrow> utf8Bytes reason \<noteq> bytes)
      \<longrightarrow> isl (parseReasonCode (pre @ abiWord (length bytes) @ hexBytes bytes @ rest)))"
proof (intro conjI impI)
  assume "length messageData \<le> 72"
  then show "parseReasonCode messageData = Inr []" by (rule parseReasonCode_short)
next
  assume a: "length pre = 72 \<and> length bytes < 2 ^ 53 \<and> list_all (\<lambda>b. b < 256) bytes
        \<and> (\<forall>reason. list_all scalarValue reason \<longrightarrow> utf8Bytes reason \<noteq> bytes)"
  then have "parseReasonCode (pre @ abiWord (length bytes) @ hexBytes bytes @ rest)
             = getUtf8CodePoints bytes"
    by (intro parseReasonCode_layout) simp_all
  moreover from a have "isl (getUtf8CodePoints bytes)"
    by (intro not_utf8_rejected) simp
  ultimately show "isl (parseReasonCode (pre @ abiWord (length bytes) @ hexBytes bytes @ rest))"
    by simp
qed

theorem parseReasonCode_malformed_witness:
  "parseReasonCode ''08c379a0'' = Inr []
   \<and> isl (parseReasonCode
        (''08c379a00000000000000000000000000000000000000000000000000000000000000020''
         @ abiWord 1 @ hexBytes [255]
         @ ''00000000000000000000000000000000000000000000000000000000000000''))"
proof -
  have bad: "\<forall>reason. list_all scalarValue reason \<longrightarrow> utf8Bytes reason \<noteq> [255]"
  proof (intro allI impI notI)
    fix reason assume "list_all scalarValue reason" and "utf8Bytes reason = [255]"
    with decode_utf8Bytes[of reason] have "getUtf8CodePoints [255] = Inr reason" by simp
    then show False by (simp add: getUtf8CodePoints.simps(2))
  qed
  have "length ''08c379a0'' \<le> 72" by simp
  with parseReasonCode_malformed[of "''08c379a0''"]
  have s: "parseReasonCode ''08c379a0'' = Inr []" by blast
  have h: "length ''08c379a00000000000000000000000000000000000000000000000000000000000000020'' = 72
     \<and> length [255::nat] < 2 ^ 53 \<and> list_all (\<lambda>b. b < 256) [255::nat]
     \<and> (\<forall>reason. list_all scalarValue reason \<longrightarrow> utf8Bytes reason \<noteq> [255])"
    using bad by simp
  from parseReasonCode_malformed[of _
      "''08c379a00000000000000000000000000000000000000000000000000000000000000020''"
      "[255]" "''00000000000000000000000000000000000000000000000000000000000000''"] h
  have "isl (parseReasonCode
        (''08c379a00000000000000000000000000000000000000000000000000000000000000020''
         @ abiWord (length [255::nat]) @ hexBytes [255]
         @ ''00000000000000000000000000000000000000000000000000000000000000''))"
    by blast
  then show ?thesis using s by simp
qed

text \<open>
  C5 as stated fails on payloads that are too short: the selector alone decodes to the
  empty string, and a payload that announces twenty bytes and holds ten of them decodes to
  the ten characters present.
\<close>

theorem parseReasonCode_short_counterexample:
  "parseReasonCode ''08c379a0'' = Inr []
   \<and> parseReasonCode
        (''08c379a0''
         @ ''0000000000000000000000000000000000000000000000000000000000000020''
         @ ''0000000000000000000000000000000000000000000000000000000000000014''
         @ ''696e7375666669636965'')
       = Inr (codePoints ''insufficie'')"
proof -
  have "parseReasonCode ''08c379a0'' = Inr []"
    by (rule parseReasonCode_short) simp
  moreover have "parseReasonCode
        (''08c379a0''
         @ ''0000000000000000000000000000000000000000000000000000000000000020''
         @ ''0000000000000000000000000000000000000000000000000000000000000014''
         @ ''696e7375666669636965'')
       = Inr (codePoints ''insufficie'')"
    by (simp add: parseReasonCode_def slice_def parseInt_def isWhiteSpace_def isDigit_def
        digitValue_def digitsValue_def toUtf8String_def arrayify_def isHexString_def
        getUtf8CodePoints.simps(2) codePoints_def Let_def)
  ultimately show ?thesis by simp
qed

section \<open>Properties of the Alethio client\<close>

text \<open>
  C4. The indexer's tags for the creation of a contract are not mapped to Create: the
  second branch of \<open>convertType\<close> assigns Value, as the first one does.
\<close>

theorem AlethioClient_convertType_create:
  "AlethioClient_convertType ''CreateContractMsg'' = Value
   \<and> AlethioClient_convertType ''CreateTx'' = Value
   \<and> Value \<noteq> Create"
  by (simp add: AlethioClient_convertType_def)

lemma AlethioClient_convertType_cases:
  "AlethioClient_convertType msgType =
     (if msgType \<in> {''ValueContractMsg'', ''ValueTx'', ''CreateContractMsg'', ''CreateTx''}
        then Value
      else if msgType \<in> {''SelfdestructContractMsg'', ''SelfdestructTx''} then Selfdestruct
      else Call)"
  by (simp add: AlethioClient_convertType_def)

subsection \<open>Validation of the transaction hash\<close>

text \<open>
  C7. For every string that does not match the format of a transaction hash,
  \<open>getTransactionDetails\<close>, \<open>getContractMessages\<close> and \<open>getTransactionTrace\<close> each throw a
  TypeError and do nothing else: whatever the server would answer, no request is sent, the
  default header of axios is not assigned and the counter of JSON-RPC ids is not advanced.
\<close>

theorem malformed_hash_rejected:
  assumes "\<not> transactionHash txHash"
  shows "getTransactionDetails httpDetails txHash apiKey network ax
           = (Inl (hashTypeError txHash), ax)
         \<and> getContractMessages httpMessages txHash apiKey network ax
           = Some (Inl (hashTypeError txHash), ax)
         \<and> getTransactionTrace post client txHash = (Inl (hashTypeError txHash), client, [])
         \<and> (\<exists>message. hashTypeError txHash = TypeError message)"
  using assms
  by (simp add: getTransactionDetails_def getContractMessages_def getTransactionTrace_def
      hashTypeError_def)

theorem malformed_hash_rejected_witness:
  "\<not> transactionHash ''not-a-hash''
   \<and> getTransactionDetails (\<lambda>request. Inr \<lparr>tx_attributes = None, tx_relationships = None\<rparr>)
        ''not-a-hash'' (Some ''key'') ''mainnet'' \<lparr>ax_authorization = None, ax_requests = []\<rparr>
       = (Inl (hashTypeError ''not-a-hash''), \<lparr>ax_authorization = None, ax_requests = []\<rparr>)
   \<and> getContractMessages (\<lambda>request. Inr \<lparr>pg_data = Some [], pg_hasNext = False, pg_next = None\<rparr>)
        ''not-a-hash'' (Some ''key'') ''mainnet'' \<lparr>ax_authorization = None, ax_requests = []\<rparr>
       = Some (Inl (hashTypeError ''not-a-hash''), \<lparr>ax_authorization = None, ax_requests = []\<rparr>)
   \<and> getTransactionTrace
        (\<lambda>request. Inr \<lparr>rr_errorMessage = None, rr_result = Some chainExample,
                         rr_structLogs = False\<rparr>)
        \<lparr>gc_url = ''http://localhost:8545'', gc_network = ''mainnet'', gc_jsonRpcId = 0\<rparr>
        ''not-a-hash''
       = (Inl (hashTypeError ''not-a-hash''),
          \<lparr>gc_url = ''http://localhost:8545'', gc_network = ''mainnet'', gc_jsonRpcId = 0\<rparr>, [])"
proof -
  have n: "\<not> transactionHash ''not-a-hash''"
    by (simp add: transactionHash_def)
  from malformed_hash_rejected[OF n] n show ?thesis by blast
qed

lemma valid_hash_sends_request:
  assumes "transactionHash txHash"
  shows "ax_requests (snd (getTransactionDetails http txHash apiKey network ax))
           = ax_requests ax
             @ [transactionRequest network txHash (ax_authorization (setAuthorization apiKey ax))]"
    and "length (snd (snd (getTransactionTrace post client txHash))) = 1"
  using assms
  by (auto simp: getTransactionDetails_def getTransactionTrace_def Let_def sent_def
      setAuthorization_def split: sum.splits option.splits)

subsection \<open>Pagination\<close>


lemma sent_fields:
  "ax_authorization (sent request ax) = ax_authorization ax"
  "ax_requests (sent request ax) = ax_requests ax @ [request]"
  by (simp_all add: sent_def)




lemma first_page_request:
  "ax_authorization (sent request (setAuthorization apiKey ax))
   = ax_authorization (setAuthorization apiKey ax)"
  by (simp add: sent_fields)



subsection \<open>The messages against the records of the pages\<close>










subsection \<open>A continuation without a cursor\<close>












end
